theory Spec2Isabelle
  imports Main "HOL-Library.Product_Lexorder"
begin

section \<open>Text, digits and exceptions\<close>

text \<open>
  A Python \<open>str\<close> is a sequence of Unicode code points, and \<open>len\<close> and the regular
  expression engine count code points. A text is therefore a list of code points
  (natural numbers), not a list of bytes.
\<close>

type_synonym codepoint = nat
type_synonym str = "codepoint list"

text \<open>
  The exceptions the modelled code can raise, with their message. The messages of the
  exceptions raised inside the \<open>datetime\<close> library are those of CPython's C
  implementation.
\<close>

datatype error =
    ValueError string
  | OverflowError string
  | KeyError str

text \<open>
  The pattern \<open>\d\<close> of the \<open>re\<close> module, applied to a \<open>str\<close>, matches every character
  with the Unicode property "decimal digit" (general category Nd), not only \<open>0\<close> to \<open>9\<close>.
  The decimal digits come in blocks of ten consecutive code points, zero first;
  \<open>decimal_zeros\<close> lists the zero of every block of the Unicode database 14.0 (the
  one of CPython 3.11). \<open>decimal c\<close> is the digit value that \<open>int\<close> and
  \<open>unicodedata.decimal\<close> give to \<open>c\<close>.
\<close>

definition decimal_zeros :: "codepoint list" where
  "decimal_zeros =
     [0x30, 0x660, 0x6F0, 0x7C0, 0x966, 0x9E6, 0xA66, 0xAE6, 0xB66, 0xBE6, 0xC66,
      0xCE6, 0xD66, 0xDE6, 0xE50, 0xED0, 0xF20, 0x1040, 0x1090, 0x17E0, 0x1810,
      0x1946, 0x19D0, 0x1A80, 0x1A90, 0x1B50, 0x1BB0, 0x1C40, 0x1C50, 0xA620,
      0xA8D0, 0xA900, 0xA9D0, 0xA9F0, 0xAA50, 0xABF0, 0xFF10, 0x104A0, 0x10D30,
      0x11066, 0x110F0, 0x11136, 0x111D0, 0x112F0, 0x11450, 0x114D0, 0x11650,
      0x116C0, 0x11730, 0x118E0, 0x11950, 0x11C50, 0x11D50, 0x11DA0, 0x16A60,
      0x16AC0, 0x16B50, 0x1D7CE, 0x1D7D8, 0x1D7E2, 0x1D7EC, 0x1D7F6, 0x1E140,
      0x1E2F0, 0x1E950, 0x1FBF0]"

definition decimal :: "codepoint \<Rightarrow> nat option" where
  "decimal c =
     (case List.find (\<lambda>z. z \<le> c \<and> c \<le> z + 9) decimal_zeros of
        None \<Rightarrow> None
      | Some z \<Rightarrow> Some (c - z))"

definition is_decimal :: "codepoint \<Rightarrow> bool" where
  "is_decimal c = (decimal c \<noteq> None)"

text \<open>The characters \<open>0\<close> to \<open>9\<close> of ASCII, the class \<open>[0-9]\<close>.\<close>

definition ascii_digit :: "codepoint \<Rightarrow> bool" where
  "ascii_digit c = (0x30 \<le> c \<and> c \<le> 0x39)"

subsection \<open>A backtracking matcher for the patterns the code uses\<close>

text \<open>
  A pattern applied at the start of a text gives every way it can match, in the order
  in which the backtracking engine tries them: each is the matched prefix with the
  text that remains.
\<close>

type_synonym matcher = "str \<Rightarrow> (str \<times> str) list"

definition chr_in :: "(codepoint \<Rightarrow> bool) \<Rightarrow> matcher" where
  "chr_in P s = (case s of [] \<Rightarrow> [] | c # rest \<Rightarrow> if P c then [([c], rest)] else [])"

definition chr_range :: "codepoint \<Rightarrow> codepoint \<Rightarrow> matcher" where
  "chr_range lo hi = chr_in (\<lambda>c. lo \<le> c \<and> c \<le> hi)"

definition chr_lit :: "codepoint \<Rightarrow> matcher" where
  "chr_lit x = chr_in (\<lambda>c. c = x)"

definition seq :: "matcher \<Rightarrow> matcher \<Rightarrow> matcher" where
  "seq p q s = [(a @ b, r2). (a, r1) \<leftarrow> p s, (b, r2) \<leftarrow> q r1]"

definition alt :: "matcher \<Rightarrow> matcher \<Rightarrow> matcher" where
  "alt p q s = p s @ q s"

fun rep :: "nat \<Rightarrow> matcher \<Rightarrow> matcher" where
  "rep 0 p s = [([], s)]"
| "rep (Suc n) p s = seq p (rep n p) s"

text \<open>\<open>re.fullmatch\<close>: some way of matching consumes the whole text.\<close>

definition fullmatch :: "matcher \<Rightarrow> str \<Rightarrow> bool" where
  "fullmatch p s = list_ex (\<lambda>(a, r). r = []) (p s)"

section \<open>Calendar dates\<close>

text \<open>
  The part of the \<open>datetime\<close> library the code uses: the proleptic Gregorian calendar
  of years 1 to 9999, the day number of a date (its ordinal, 1 for 0001-01-01) and its
  inverse. Python's integers are unbounded, so all fields are \<open>int\<close>; \<open>div\<close> and \<open>mod\<close>
  on \<open>int\<close> round down, as Python's \<open>//\<close> and \<open>%\<close> do.
\<close>

definition MINYEAR :: int where "MINYEAR = 1"
definition MAXYEAR :: int where "MAXYEAR = 9999"
definition MAXORDINAL :: int where "MAXORDINAL = 3652059"

definition DAYS_IN_MONTH :: "int list" where
  "DAYS_IN_MONTH = [-1, 31, 28, 31, 30, 31, 30, 31, 31, 30, 31, 30, 31]"

definition DAYS_BEFORE_MONTH :: "int list" where
  "DAYS_BEFORE_MONTH = [-1, 0, 31, 59, 90, 120, 151, 181, 212, 243, 273, 304, 334]"

definition is_leap :: "int \<Rightarrow> bool" where
  "is_leap year = (year mod 4 = 0 \<and> (year mod 100 \<noteq> 0 \<or> year mod 400 = 0))"

definition days_before_year :: "int \<Rightarrow> int" where
  "days_before_year year = (let y = year - 1 in y * 365 + y div 4 - y div 100 + y div 400)"

text \<open>Called with \<open>1 \<le> month \<le> 12\<close> only, so the table lookups are in range.\<close>

definition days_in_month :: "int \<Rightarrow> int \<Rightarrow> int" where
  "days_in_month year month =
     (if month = 2 \<and> is_leap year then 29 else DAYS_IN_MONTH ! nat month)"

definition days_before_month :: "int \<Rightarrow> int \<Rightarrow> int" where
  "days_before_month year month =
     DAYS_BEFORE_MONTH ! nat month + (if month > 2 \<and> is_leap year then 1 else 0)"

definition ymd2ord :: "int \<Rightarrow> int \<Rightarrow> int \<Rightarrow> int" where
  "ymd2ord year month day = days_before_year year + days_before_month year month + day"

definition DI400Y :: int where "DI400Y = 146097"
definition DI100Y :: int where "DI100Y = 36524"
definition DI4Y :: int where "DI4Y = 1461"

definition ord2ymd :: "int \<Rightarrow> int \<times> int \<times> int" where
  "ord2ymd ordinal =
     (let n = ordinal - 1;
          n400 = n div DI400Y; n = n mod DI400Y;
          year = n400 * 400 + 1;
          n100 = n div DI100Y; n = n mod DI100Y;
          n4 = n div DI4Y; n = n mod DI4Y;
          n1 = n div 365; n = n mod 365;
          year = year + n100 * 100 + n4 * 4 + n1
      in if n1 = 4 \<or> n100 = 4 then (year - 1, 12, 31)
         else
           let leapyear = (n1 = 3 \<and> (n4 \<noteq> 24 \<or> n100 = 3));
               month = (n + 50) div 32;
               preceding = DAYS_BEFORE_MONTH ! nat month
                           + (if month > 2 \<and> leapyear then 1 else 0)
           in if preceding > n then
                let month = month - 1;
                    preceding = preceding
                      - (DAYS_IN_MONTH ! nat month + (if month = 2 \<and> leapyear then 1 else 0))
                in (year, month, n - preceding + 1)
              else (year, month, n - preceding + 1))"

text \<open>A naive \<open>datetime\<close> (no time zone), as \<open>strptime\<close> and \<open>today\<close> return it.\<close>

record datetime =
  year :: int
  month :: int
  day :: int
  hour :: int
  minute :: int
  second :: int
  microsecond :: int

text \<open>Decimal rendering of an integer, for the messages that show one.\<close>

fun digits_of :: "nat \<Rightarrow> nat list" where
  "digits_of n = (if n < 10 then [n] else digits_of (n div 10) @ [n mod 10])"

declare digits_of.simps [simp del]

definition show_int :: "int \<Rightarrow> string" where
  "show_int i =
     (if i < 0 then ''-'' else []) @ map (\<lambda>d. ''0123456789'' ! d) (digits_of (nat \<bar>i\<bar>))"

text \<open>
  The constructor \<open>datetime(year, month, day, hour, minute, second, microsecond)\<close>
  checks the date fields, then the time fields, and raises \<open>ValueError\<close> at the first
  one out of range.
\<close>

definition datetime_new ::
  "int \<Rightarrow> int \<Rightarrow> int \<Rightarrow> int \<Rightarrow> int \<Rightarrow> int \<Rightarrow> int \<Rightarrow> error + datetime" where
  "datetime_new y mo d h mi s us =
     (if \<not> (MINYEAR \<le> y \<and> y \<le> MAXYEAR)
        then Inl (ValueError (''year '' @ show_int y @ '' is out of range''))
      else if \<not> (1 \<le> mo \<and> mo \<le> 12)
        then Inl (ValueError ''month must be in 1..12'')
      else if \<not> (1 \<le> d \<and> d \<le> days_in_month y mo)
        then Inl (ValueError ''day is out of range for month'')
      else if \<not> (0 \<le> h \<and> h \<le> 23)
        then Inl (ValueError ''hour must be in 0..23'')
      else if \<not> (0 \<le> mi \<and> mi \<le> 59)
        then Inl (ValueError ''minute must be in 0..59'')
      else if \<not> (0 \<le> s \<and> s \<le> 59)
        then Inl (ValueError ''second must be in 0..59'')
      else if \<not> (0 \<le> us \<and> us \<le> 999999)
        then Inl (ValueError ''microsecond must be in 0..999999'')
      else Inr \<lparr>year = y, month = mo, day = d, hour = h, minute = mi, second = s,
                microsecond = us\<rparr>)"

text \<open>
  Every \<open>datetime\<close> object of a running program went through the constructor: this is
  the invariant of the type.
\<close>

definition valid_datetime :: "datetime \<Rightarrow> bool" where
  "valid_datetime dt =
     (datetime_new (year dt) (month dt) (day dt) (hour dt) (minute dt) (second dt)
        (microsecond dt) = Inr dt)"

text \<open>\<open>dt.replace(year=y)\<close> builds a new object from the fields, through the constructor.\<close>

definition replace_year :: "datetime \<Rightarrow> int \<Rightarrow> error + datetime" where
  "replace_year dt y =
     datetime_new y (month dt) (day dt) (hour dt) (minute dt) (second dt) (microsecond dt)"

definition toordinal :: "datetime \<Rightarrow> int" where
  "toordinal dt = ymd2ord (year dt) (month dt) (day dt)"

text \<open>
  \<open>timedelta(days=n)\<close>, as its number of days. The C implementation first converts the
  argument to a C \<open>int\<close> (32 bits), which fails outside its range, then refuses more than
  999999999 days in either direction.
\<close>

definition timedelta :: "int \<Rightarrow> error + int" where
  "timedelta days =
     (if days < - 2147483648 \<or> 2147483647 < days
      then Inl (OverflowError ''Python int too large to convert to C int'')
      else if \<bar>days\<bar> > 999999999
      then Inl (OverflowError
                  (''days='' @ show_int days @ ''; must have magnitude <= 999999999''))
      else Inr days)"

text \<open>
  \<open>dt + delta\<close> for a \<open>delta\<close> of whole days: the time of day stays, the date moves by
  \<open>delta\<close> days, and a date outside the years 1 to 9999 is an \<open>OverflowError\<close>.
\<close>

definition datetime_add :: "datetime \<Rightarrow> int \<Rightarrow> error + datetime" where
  "datetime_add dt delta =
     (let n = toordinal dt + delta
      in if 0 < n \<and> n \<le> MAXORDINAL
         then (case ord2ymd n of
                 (y, mo, d) \<Rightarrow> Inr (dt\<lparr>year := y, month := mo, day := d\<rparr>))
         else Inl (OverflowError ''date value out of range''))"

text \<open>\<open>a <= b\<close> on naive datetimes compares the seven fields lexicographically.\<close>

definition datetime_le :: "datetime \<Rightarrow> datetime \<Rightarrow> bool" where
  "datetime_le a b =
     ((year a, month a, day a, hour a, minute a, second a, microsecond a)
      \<le> (year b, month b, day b, hour b, minute b, second b, microsecond b))"

text \<open>The calendar day of a \<open>datetime\<close> and its time of day (\<open>dt.date()\<close>, \<open>dt.time()\<close>).\<close>

definition date_of :: "datetime \<Rightarrow> int \<times> int \<times> int" where
  "date_of dt = (year dt, month dt, day dt)"

definition time_of :: "datetime \<Rightarrow> int \<times> int \<times> int \<times> int" where
  "time_of dt = (hour dt, minute dt, second dt, microsecond dt)"

section \<open>Fields\<close>

text \<open>
  \<open>class Field\<close> holds one attribute, \<open>value\<close>; \<open>Name\<close>, \<open>Phone\<close> and \<open>Birthday\<close>
  are its subclasses and differ in their constructor only.
\<close>

datatype 'a Field = Field (field_value: 'a)

type_synonym Name = "str Field"
type_synonym Phone = "str Field"

text \<open>\<open>Phone.__init__\<close>: the pattern is \<open>\d{10}\<close>.\<close>

definition Phone_init :: "str \<Rightarrow> error + Phone" where
  "Phone_init v =
     (if \<not> fullmatch (rep 10 (chr_in is_decimal)) v
      then Inl (ValueError ''Phone number must be 10 digits.'')
      else Inr (Field v))"

text \<open>
  The pattern of the specification, \<open>^[0-9]{10}$\<close> read as "exactly ten ASCII decimal
  digits and nothing else".
\<close>

definition spec_phone_pattern :: "str \<Rightarrow> bool" where
  "spec_phone_pattern s = (length s = 10 \<and> list_all ascii_digit s)"

text \<open>
  \<open>Birthday.__init__\<close> parses with \<open>datetime.strptime(value, "%d.%m.%Y")\<close>. The library
  turns the format into the regular expression
  \<^verbatim>\<open>(?P<d>3[0-1]|[1-2]\d|0[1-9]|[1-9]| [1-9])\.(?P<m>1[0-2]|0[1-9]|[1-9])\.(?P<Y>\d\d\d\d)\<close>
  (case-insensitive, which changes nothing for digits), matches it at the start of the
  text (\<open>re.match\<close>), refuses a text that the match does not consume to its end,
  converts the three groups with \<open>int\<close> and builds the date.
\<close>

definition group_d :: matcher where
  "group_d =
     alt (seq (chr_lit 0x33) (chr_range 0x30 0x31))
    (alt (seq (chr_range 0x31 0x32) (chr_in is_decimal))
    (alt (seq (chr_lit 0x30) (chr_range 0x31 0x39))
    (alt (chr_range 0x31 0x39)
         (seq (chr_lit 0x20) (chr_range 0x31 0x39)))))"

definition group_m :: matcher where
  "group_m =
     alt (seq (chr_lit 0x31) (chr_range 0x30 0x32))
    (alt (seq (chr_lit 0x30) (chr_range 0x31 0x39))
         (chr_range 0x31 0x39))"

definition group_Y :: matcher where
  "group_Y = rep 4 (chr_in is_decimal)"

text \<open>The matches of the whole pattern: the three groups and the unconverted rest.\<close>

definition re_dmY :: "str \<Rightarrow> (str \<times> str \<times> str \<times> str) list" where
  "re_dmY s =
     [(d, m, y, r5).
        (d, r1) \<leftarrow> group_d s, (p1, r2) \<leftarrow> chr_lit 0x2E r1,
        (m, r3) \<leftarrow> group_m r2, (p2, r4) \<leftarrow> chr_lit 0x2E r3,
        (y, r5) \<leftarrow> group_Y r4]"

text \<open>
  \<open>int(s)\<close> on a group of the pattern: surrounding blanks are dropped and every Unicode
  decimal digit counts with its value. (Signs and underscores, which \<open>int\<close> also reads,
  cannot occur in a group.)
\<close>

definition py_int :: "str \<Rightarrow> error + int" where
  "py_int s =
     (let t = dropWhile (\<lambda>c. c = 0x20) s
      in if t \<noteq> [] \<and> list_all is_decimal t
         then Inr (foldl (\<lambda>acc c. 10 * acc + int (the (decimal c))) 0 t)
         else Inl (ValueError ''invalid literal for int() with base 10''))"

definition bind :: "error + 'a \<Rightarrow> ('a \<Rightarrow> error + 'b) \<Rightarrow> error + 'b" where
  "bind x f = (case x of Inl e \<Rightarrow> Inl e | Inr v \<Rightarrow> f v)"

definition strptime_dmY :: "str \<Rightarrow> error + datetime" where
  "strptime_dmY data_string =
     (case re_dmY data_string of
        [] \<Rightarrow> Inl (ValueError ''time data does not match format'')
      | (d, m, y, rest) # _ \<Rightarrow>
          if rest \<noteq> [] then Inl (ValueError ''unconverted data remains'')
          else bind (py_int d) (\<lambda>day.
               bind (py_int m) (\<lambda>month.
               bind (py_int y) (\<lambda>year.
               datetime_new year month day 0 0 0 0))))"

text \<open>
  \<open>dt.strftime("%d.%m.%Y")\<close>: day and month with two digits. The year is left to the C
  library, which pads it with zeros to four digits on some platforms and not on others
  (a year 999 is rendered \<open>999\<close> by glibc); \<open>pad_year\<close> says which.
\<close>

definition show_nat :: "nat \<Rightarrow> str" where
  "show_nat n = map (\<lambda>d. 0x30 + d) (digits_of n)"

definition zfill :: "nat \<Rightarrow> str \<Rightarrow> str" where
  "zfill w s = replicate (w - length s) 0x30 @ s"

definition strftime_dmY :: "bool \<Rightarrow> datetime \<Rightarrow> str" where
  "strftime_dmY pad_year dt =
     zfill 2 (show_nat (nat (day dt))) @ [0x2E] @
     zfill 2 (show_nat (nat (month dt))) @ [0x2E] @
     (if pad_year then zfill 4 (show_nat (nat (year dt))) else show_nat (nat (year dt)))"

type_synonym Birthday = "datetime Field"

text \<open>
  \<open>Birthday.__init__\<close>: any \<open>ValueError\<close> of the parser is replaced by the class's own
  message.
\<close>

definition Birthday_init :: "str \<Rightarrow> error + Birthday" where
  "Birthday_init v =
     (case strptime_dmY v of
        Inl (ValueError m) \<Rightarrow> Inl (ValueError ''Invalid date format. Use DD.MM.YYYY'')
      | Inl e \<Rightarrow> Inl e
      | Inr dt \<Rightarrow> Inr (Field dt))"

text \<open>
  The pattern of the specification, \<open>DD.MM.YYYY\<close> with a two-digit day, a two-digit
  month and a four-digit year.
\<close>

fun spec_date_pattern :: "str \<Rightarrow> bool" where
  "spec_date_pattern [d1, d2, p1, m1, m2, p2, y1, y2, y3, y4] =
     (list_all ascii_digit [d1, d2, m1, m2, y1, y2, y3, y4] \<and> p1 = 0x2E \<and> p2 = 0x2E)"
| "spec_date_pattern _ = False"

text \<open>
  The texts that the three groups of the pattern match, written out: a day is one
  digit 1-9, or two characters \<open>30\<close>, \<open>31\<close>, \<open>1\<close> or \<open>2\<close> followed by any decimal digit,
  \<open>0\<close> followed by 1-9, or a blank followed by 1-9; a month is one digit 1-9, \<open>10\<close> to
  \<open>12\<close>, or \<open>0\<close> followed by 1-9; a year is any four decimal digits. (Shown below to be
  what the matchers accept.)
\<close>

definition day_text :: "str \<Rightarrow> bool" where
  "day_text d =
     (case d of
        [a] \<Rightarrow> 0x31 \<le> a \<and> a \<le> 0x39
      | [a, b] \<Rightarrow>
          a = 0x33 \<and> 0x30 \<le> b \<and> b \<le> 0x31 \<or>
          0x31 \<le> a \<and> a \<le> 0x32 \<and> is_decimal b \<or>
          a = 0x30 \<and> 0x31 \<le> b \<and> b \<le> 0x39 \<or>
          a = 0x20 \<and> 0x31 \<le> b \<and> b \<le> 0x39
      | _ \<Rightarrow> False)"

definition month_text :: "str \<Rightarrow> bool" where
  "month_text m =
     (case m of
        [a] \<Rightarrow> 0x31 \<le> a \<and> a \<le> 0x39
      | [a, b] \<Rightarrow>
          a = 0x31 \<and> 0x30 \<le> b \<and> b \<le> 0x32 \<or>
          a = 0x30 \<and> 0x31 \<le> b \<and> b \<le> 0x39
      | _ \<Rightarrow> False)"

definition year_text :: "str \<Rightarrow> bool" where
  "year_text y = (length y = 4 \<and> list_all is_decimal y)"

section \<open>Records\<close>

record Record =
  name :: Name
  phones :: "Phone list"
  birthday :: "Birthday option"

definition Record_init :: "str \<Rightarrow> Record" where
  "Record_init n = \<lparr>name = Field n, phones = [], birthday = None\<rparr>"

text \<open>
  The methods change the record in place; here they return the outcome (an exception or
  \<open>None\<close>) together with the record as it is afterwards. \<open>edit_phone\<close> walks the
  enumerated phones, and at the first one equal to \<open>old_phone\<close> builds the new \<open>Phone\<close>
  (which may raise) before it assigns to the slot.
\<close>

fun edit_phone_loop ::
  "Record \<Rightarrow> (nat \<times> Phone) list \<Rightarrow> str \<Rightarrow> str \<Rightarrow> (error + unit) \<times> Record" where
  "edit_phone_loop r [] old_phone new_phone =
     (Inl (ValueError ''Old phone number not found.''), r)"
| "edit_phone_loop r ((idx, phone) # rest) old_phone new_phone =
     (if field_value phone = old_phone then
        (case Phone_init new_phone of
           Inl e \<Rightarrow> (Inl e, r)
         | Inr p \<Rightarrow> (Inr (), r\<lparr>phones := (phones r)[idx := p]\<rparr>))
      else edit_phone_loop r rest old_phone new_phone)"

definition edit_phone :: "Record \<Rightarrow> str \<Rightarrow> str \<Rightarrow> (error + unit) \<times> Record" where
  "edit_phone r old_phone new_phone =
     edit_phone_loop r (enumerate 0 (phones r)) old_phone new_phone"

section \<open>The address book\<close>

text \<open>
  \<open>AddressBook\<close> is a \<open>UserDict\<close>: its \<open>data\<close> is a dictionary from names to records,
  which keeps its keys in insertion order. It is the list of its items in that order;
  the keys of a dictionary are distinct.
\<close>

type_synonym AddressBook = "(str \<times> Record) list"

definition wf_book :: "AddressBook \<Rightarrow> bool" where
  "wf_book book = distinct (map fst book)"

text \<open>\<open>d[k] = v\<close>: an existing key keeps its place, a new one goes last.\<close>

fun dict_setitem :: "('k \<times> 'v) list \<Rightarrow> 'k \<Rightarrow> 'v \<Rightarrow> ('k \<times> 'v) list" where
  "dict_setitem [] k v = [(k, v)]"
| "dict_setitem ((k', v') # rest) k v =
     (if k' = k then (k', v) # rest else (k', v') # dict_setitem rest k v)"

fun dict_get :: "('k \<times> 'v) list \<Rightarrow> 'k \<Rightarrow> 'v option" where
  "dict_get [] k = None"
| "dict_get ((k', v') # rest) k = (if k' = k then Some v' else dict_get rest k)"

definition dict_contains :: "('k \<times> 'v) list \<Rightarrow> 'k \<Rightarrow> bool" where
  "dict_contains d k = (dict_get d k \<noteq> None)"

text \<open>\<open>del d[k]\<close> raises \<open>KeyError\<close> when the key is absent.\<close>

fun dict_delitem :: "(str \<times> 'v) list \<Rightarrow> str \<Rightarrow> error + (str \<times> 'v) list" where
  "dict_delitem [] k = Inl (KeyError k)"
| "dict_delitem ((k', v') # rest) k =
     (if k' = k then Inr rest
      else (case dict_delitem rest k of
              Inl e \<Rightarrow> Inl e
            | Inr rest' \<Rightarrow> Inr ((k', v') # rest')))"

definition add_record :: "AddressBook \<Rightarrow> Record \<Rightarrow> AddressBook" where
  "add_record book record = dict_setitem book (field_value (name record)) record"

definition find_record :: "AddressBook \<Rightarrow> str \<Rightarrow> Record option" where
  "find_record book n = dict_get book n"

definition delete :: "AddressBook \<Rightarrow> str \<Rightarrow> error + AddressBook" where
  "delete book n = (if dict_contains book n then dict_delitem book n else Inr book)"

text \<open>
  \<open>get_upcoming_birthdays\<close>. The clock read by \<open>datetime.today()\<close> is the parameter
  \<open>today\<close>: a date with its time of day. The chained comparison
  \<open>today <= birthday <= today + timedelta(days=days)\<close> evaluates its right part only
  when the left part holds.
\<close>

definition in_window :: "datetime \<Rightarrow> int \<Rightarrow> datetime \<Rightarrow> error + bool" where
  "in_window today days bday =
     (if \<not> datetime_le today bday then Inr False
      else bind (timedelta days) (\<lambda>delta.
           bind (datetime_add today delta) (\<lambda>limit.
           Inr (datetime_le bday limit))))"

fun upcoming_loop ::
  "datetime \<Rightarrow> int \<Rightarrow> Record list \<Rightarrow> Record list \<Rightarrow> error + Record list" where
  "upcoming_loop today days upcoming [] = Inr upcoming"
| "upcoming_loop today days upcoming (record # rest) =
     (case birthday record of
        None \<Rightarrow> upcoming_loop today days upcoming rest
      | Some b \<Rightarrow>
          bind (replace_year (field_value b) (year today)) (\<lambda>bday.
          bind (in_window today days bday) (\<lambda>inside.
          if inside then upcoming_loop today days (upcoming @ [record]) rest
          else upcoming_loop today days upcoming rest)))"

definition get_upcoming_birthdays ::
  "AddressBook \<Rightarrow> int \<Rightarrow> datetime \<Rightarrow> error + Record list" where
  "get_upcoming_birthdays book days today = upcoming_loop today days [] (map snd book)"

text \<open>
  The operations of the directory as commands, and a run of commands from a given
  directory. \<open>find\<close> returns a record and leaves the directory as it is.
\<close>

datatype command = Add Record | Find str | Delete str

fun exec :: "AddressBook \<Rightarrow> command \<Rightarrow> error + AddressBook" where
  "exec book (Add record) = Inr (add_record book record)"
| "exec book (Find n) = (case find_record book n of _ \<Rightarrow> Inr book)"
| "exec book (Delete n) = delete book n"

fun run :: "AddressBook \<Rightarrow> command list \<Rightarrow> error + AddressBook" where
  "run book [] = Inr book"
| "run book (c # cs) = bind (exec book c) (\<lambda>book'. run book' cs)"

text \<open>
  What one turn of the loop of \<open>get_upcoming_birthdays\<close> decides for a record: it has a
  birthday, the projection on this year succeeds and lies in the window.
\<close>

definition qualifies :: "datetime \<Rightarrow> int \<Rightarrow> Record \<Rightarrow> bool" where
  "qualifies today days r =
     (\<exists>b p. birthday r = Some b \<and> replace_year (field_value b) (year today) = Inr p \<and>
        in_window today days p = Inr True)"

text \<open>
  The window of the specification, in whole days: the record has a birthday, its
  projection on the year of the reference exists, the end of the window exists, and
  \<open>referenceDate \<le> projectedBirthday \<le> referenceDate + windowDays\<close> as calendar days.
\<close>

definition within_days :: "datetime \<Rightarrow> int \<Rightarrow> Record \<Rightarrow> bool" where
  "within_days today days r =
     (case birthday r of
        None \<Rightarrow> False
      | Some b \<Rightarrow>
          (case replace_year (field_value b) (year today) of
             Inl e \<Rightarrow> False
           | Inr p \<Rightarrow>
               (case bind (timedelta days) (datetime_add today) of
                  Inl e \<Rightarrow> False
                | Inr limit \<Rightarrow> date_of today \<le> date_of p \<and> date_of p \<le> date_of limit)))"

text \<open>The birthday falls on the day and month of the reference itself.\<close>

definition on_reference_day :: "datetime \<Rightarrow> Record \<Rightarrow> bool" where
  "on_reference_day today r =
     (case birthday r of
        None \<Rightarrow> False
      | Some b \<Rightarrow> month (field_value b) = month today \<and> day (field_value b) = day today)"

text \<open>The invariant of the directory: every record is stored under its own name.\<close>

definition name_is_key :: "AddressBook \<Rightarrow> bool" where
  "name_is_key book = list_all (\<lambda>(k, r). field_value (name r) = k) book"

section \<open>Example data\<close>

text \<open>
  Two records, "A" with the phones 1234567890 and 5555555555 and "B" without phones,
  for the concrete instances below.
\<close>

definition rec_A :: Record where
  "rec_A =
     \<lparr>name = Field [0x41],
      phones = [Field [0x31, 0x32, 0x33, 0x34, 0x35, 0x36, 0x37, 0x38, 0x39, 0x30],
                Field [0x35, 0x35, 0x35, 0x35, 0x35, 0x35, 0x35, 0x35, 0x35, 0x35]],
      birthday = None\<rparr>"

definition rec_B :: Record where
  "rec_B = \<lparr>name = Field [0x42], phones = [], birthday = None\<rparr>"

text \<open>
  A date at 00:00:00, as \<open>strptime\<close> builds it from a \<open>DD.MM.YYYY\<close> text, and a record
  with such a birthday and no phones.
\<close>

definition midnight :: "int \<Rightarrow> int \<Rightarrow> int \<Rightarrow> datetime" where
  "midnight y m d =
     \<lparr>year = y, month = m, day = d, hour = 0, minute = 0, second = 0, microsecond = 0\<rparr>"

definition born :: "str \<Rightarrow> int \<Rightarrow> int \<Rightarrow> int \<Rightarrow> Record" where
  "born n y m d = \<lparr>name = Field n, phones = [], birthday = Some (Field (midnight y m d))\<rparr>"

text \<open>A date with a time of day, as the clock gives it.\<close>

definition at_time :: "int \<Rightarrow> int \<Rightarrow> int \<Rightarrow> int \<Rightarrow> int \<Rightarrow> int \<Rightarrow> datetime" where
  "at_time y m d h mi s =
     \<lparr>year = y, month = m, day = d, hour = h, minute = mi, second = s, microsecond = 0\<rparr>"

section \<open>Properties\<close>

subsection \<open>Digits and the phone pattern\<close>

lemma decimal_ascii: "ascii_digit c \<Longrightarrow> decimal c = Some (c - 0x30)"
  by (simp add: ascii_digit_def decimal_def decimal_zeros_def)

lemma is_decimal_ascii: "ascii_digit c \<Longrightarrow> is_decimal c"
  by (simp add: is_decimal_def decimal_ascii)

lemma chr_in_simps:
  "chr_in P [] = []"
  "chr_in P (c # rest) = (if P c then [([c], rest)] else [])"
  by (simp_all add: chr_in_def)

lemma rep_chr_in:
  "rep n (chr_in P) s =
     (if n \<le> length s \<and> list_all P (take n s) then [(take n s, drop n s)] else [])"
proof (induction n arbitrary: s)
  case 0
  then show ?case by simp
next
  case (Suc n)
  show ?case
  proof (cases s)
    case Nil
    then show ?thesis by (simp add: seq_def chr_in_simps)
  next
    case (Cons c rest)
    then show ?thesis by (simp add: seq_def chr_in_simps Suc.IH)
  qed
qed

lemma fullmatch_rep_chr_in:
  "fullmatch (rep n (chr_in P)) s \<longleftrightarrow> length s = n \<and> list_all P s"
  by (auto simp: fullmatch_def rep_chr_in)

lemma Phone_init_eq:
  "Phone_init t =
     (if length t = 10 \<and> list_all is_decimal t then Inr (Field t)
      else Inl (ValueError ''Phone number must be 10 digits.''))"
  by (simp add: Phone_init_def fullmatch_rep_chr_in)

lemma is_decimal_arabic_indic: "is_decimal 0x660"
  by (simp add: is_decimal_def decimal_def decimal_zeros_def)

text \<open>
  Claim C4, as the code has it. \<open>Phone.__init__\<close> succeeds exactly on the texts of ten
  characters that are all decimal digits in the sense of \<open>\d\<close>, that is Unicode decimal
  digits, the ASCII digits among them; the stored value is the text itself; every
  other text is refused with the message "Phone number must be 10 digits."; and every
  text of exactly ten ASCII digits is accepted.
\<close>

theorem Phone_init_ten_decimal_digits:
  "((\<exists>p. Phone_init t = Inr p) \<longleftrightarrow> length t = 10 \<and> list_all is_decimal t) \<and>
   (\<forall>p. Phone_init t = Inr p \<longrightarrow> field_value p = t) \<and>
   (\<forall>e. Phone_init t = Inl e \<longrightarrow> e = ValueError ''Phone number must be 10 digits.'') \<and>
   (spec_phone_pattern t \<longrightarrow> Phone_init t = Inr (Field t))"
proof -
  have "spec_phone_pattern t \<Longrightarrow> list_all is_decimal t"
    by (auto simp: spec_phone_pattern_def list_all_iff is_decimal_ascii)
  then show ?thesis
    by (auto simp: Phone_init_eq spec_phone_pattern_def)
qed

theorem Phone_init_ten_decimal_digits_witness:
  "spec_phone_pattern [0x31, 0x32, 0x33, 0x34, 0x35, 0x36, 0x37, 0x38, 0x39, 0x30] \<and>
   Phone_init [0x31, 0x32, 0x33, 0x34, 0x35, 0x36, 0x37, 0x38, 0x39, 0x30]
     = Inr (Field [0x31, 0x32, 0x33, 0x34, 0x35, 0x36, 0x37, 0x38, 0x39, 0x30]) \<and>
   Phone_init [0x31, 0x32, 0x33, 0x34, 0x35]
     = Inl (ValueError ''Phone number must be 10 digits.'')"
proof -
  have ok: "spec_phone_pattern [0x31, 0x32, 0x33, 0x34, 0x35, 0x36, 0x37, 0x38, 0x39, 0x30]"
    by (simp add: spec_phone_pattern_def ascii_digit_def)
  have short: "\<not> (length [0x31, 0x32, 0x33, 0x34, 0x35 :: nat] = 10
                  \<and> list_all is_decimal [0x31, 0x32, 0x33, 0x34, 0x35])"
    by simp
  from Phone_init_ten_decimal_digits
         [of "[0x31, 0x32, 0x33, 0x34, 0x35, 0x36, 0x37, 0x38, 0x39, 0x30]"] ok
  have a: "Phone_init [0x31, 0x32, 0x33, 0x34, 0x35, 0x36, 0x37, 0x38, 0x39, 0x30]
             = Inr (Field [0x31, 0x32, 0x33, 0x34, 0x35, 0x36, 0x37, 0x38, 0x39, 0x30])"
    by blast
  from Phone_init_ten_decimal_digits [of "[0x31, 0x32, 0x33, 0x34, 0x35]"] short
  have b: "Phone_init [0x31, 0x32, 0x33, 0x34, 0x35]
             = Inl (ValueError ''Phone number must be 10 digits.'')"
    by (cases "Phone_init [0x31, 0x32, 0x33, 0x34, 0x35]") blast+
  from ok a b show ?thesis by blast
qed

text \<open>
  The claim as the specification words it fails: a text of ten Arabic-Indic digits
  (U+0660) is accepted, and it is not ten ASCII digits.
\<close>

theorem Phone_init_ascii_counterexample:
  "Phone_init [0x660, 0x660, 0x660, 0x660, 0x660, 0x660, 0x660, 0x660, 0x660, 0x660]
     = Inr (Field [0x660, 0x660, 0x660, 0x660, 0x660, 0x660, 0x660, 0x660, 0x660, 0x660]) \<and>
   \<not> spec_phone_pattern [0x660, 0x660, 0x660, 0x660, 0x660, 0x660, 0x660, 0x660, 0x660, 0x660]"
  by (simp add: Phone_init_eq is_decimal_arabic_indic spec_phone_pattern_def ascii_digit_def)

subsection \<open>Editing a phone\<close>

lemma edit_phone_loop_absent:
  "\<forall>(i, p) \<in> set xs. field_value p \<noteq> old \<Longrightarrow>
   edit_phone_loop r xs old new = (Inl (ValueError ''Old phone number not found.''), r)"
  by (induction xs) auto

lemma edit_phone_loop_invalid:
  "\<exists>(i, p) \<in> set xs. field_value p = old \<Longrightarrow> Phone_init new = Inl e \<Longrightarrow>
   edit_phone_loop r xs old new = (Inl e, r)"
proof (induction xs)
  case Nil
  then show ?case by simp
next
  case (Cons x xs)
  obtain i p where x: "x = (i, p)" by (cases x)
  show ?case
  proof (cases "field_value p = old")
    case True
    with x Cons.prems(2) show ?thesis by simp
  next
    case False
    with x Cons.prems(1) have "\<exists>(i, p) \<in> set xs. field_value p = old" by auto
    from Cons.IH [OF this Cons.prems(2)] False x show ?thesis by simp
  qed
qed

lemma set_enumerate_snd: "(i, p) \<in> set (enumerate n xs) \<Longrightarrow> p \<in> set xs"
  by (auto simp: in_set_enumerate_eq)

text \<open>
  Claim C6. When no phone of the record equals \<open>old\<close>, \<open>edit_phone\<close> raises
  \<open>ValueError("Old phone number not found.")\<close> and the record, its phone list
  included, is as before the call.
\<close>

theorem edit_phone_old_absent:
  assumes "old \<notin> field_value ` set (phones r)"
  shows "edit_phone r old new = (Inl (ValueError ''Old phone number not found.''), r)"
proof -
  have "\<forall>(i, p) \<in> set (enumerate 0 (phones r)). field_value p \<noteq> old"
    using assms by (auto dest: set_enumerate_snd)
  then show ?thesis
    unfolding edit_phone_def by (rule edit_phone_loop_absent)
qed

theorem edit_phone_old_absent_witness:
  "edit_phone rec_A [0x39, 0x39, 0x39, 0x39, 0x39, 0x39, 0x39, 0x39, 0x39, 0x39]
     [0x31, 0x31, 0x31, 0x31, 0x31, 0x31, 0x31, 0x31, 0x31, 0x31]
   = (Inl (ValueError ''Old phone number not found.''), rec_A)"
proof -
  have "[0x39, 0x39, 0x39, 0x39, 0x39, 0x39, 0x39, 0x39, 0x39, 0x39]
          \<notin> field_value ` set (phones rec_A)"
    by (simp add: rec_A_def)
  then show ?thesis by (rule edit_phone_old_absent)
qed

text \<open>
  Claim C7, as the code has it. When a phone of the record equals \<open>old\<close> and \<open>new\<close> is
  not a text of ten decimal digits in the sense of \<open>\d\<close> (Unicode decimal digits, the
  ASCII digits among them), \<open>Phone\<close> refuses it, \<open>edit_phone\<close> raises that error,
  \<open>ValueError("Phone number must be 10 digits.")\<close>, and the record, its phone list
  included, is as before the call: nothing was replaced or removed.
\<close>

theorem edit_phone_new_invalid:
  assumes "old \<in> field_value ` set (phones r)"
    and "\<not> (length new = 10 \<and> list_all is_decimal new)"
  shows "Phone_init new = Inl (ValueError ''Phone number must be 10 digits.'') \<and>
         edit_phone r old new = (Inl (ValueError ''Phone number must be 10 digits.''), r)"
proof -
  from assms(2)
  have refused: "Phone_init new = Inl (ValueError ''Phone number must be 10 digits.'')"
    by (simp add: Phone_init_eq)
  from assms(1) obtain p where p: "p \<in> set (phones r)" "field_value p = old" by auto
  then obtain i where "i < length (phones r)" "phones r ! i = p"
    by (auto simp: in_set_conv_nth)
  then have "(i, p) \<in> set (enumerate 0 (phones r))"
    by (simp add: in_set_enumerate_eq)
  with p(2) have "\<exists>(i, p) \<in> set (enumerate 0 (phones r)). field_value p = old" by blast
  then have "edit_phone r old new = (Inl (ValueError ''Phone number must be 10 digits.''), r)"
    unfolding edit_phone_def using refused by (rule edit_phone_loop_invalid)
  with refused show ?thesis by simp
qed

theorem edit_phone_new_invalid_witness:
  "[0x35, 0x35, 0x35, 0x35, 0x35, 0x35, 0x35, 0x35, 0x35, 0x35]
     \<in> field_value ` set (phones rec_A) \<and>
   Phone_init [0x31, 0x32, 0x33, 0x34, 0x35]
     = Inl (ValueError ''Phone number must be 10 digits.'') \<and>
   edit_phone rec_A [0x35, 0x35, 0x35, 0x35, 0x35, 0x35, 0x35, 0x35, 0x35, 0x35]
     [0x31, 0x32, 0x33, 0x34, 0x35]
   = (Inl (ValueError ''Phone number must be 10 digits.''), rec_A)"
proof -
  have present: "[0x35, 0x35, 0x35, 0x35, 0x35, 0x35, 0x35, 0x35, 0x35, 0x35]
                   \<in> field_value ` set (phones rec_A)"
    by (simp add: rec_A_def)
  have short: "\<not> (length [0x31, 0x32, 0x33, 0x34, 0x35 :: nat] = 10 \<and>
                    list_all is_decimal [0x31, 0x32, 0x33, 0x34, 0x35])"
    by simp
  from edit_phone_new_invalid [OF present short] present show ?thesis by simp
qed

text \<open>
  The claim as the specification words it, with "valid" read as the specification's
  \<open>^[0-9]{10}$\<close>, fails: ten Arabic-Indic digits are not ten ASCII digits, yet \<open>Phone\<close>
  accepts them and \<open>edit_phone\<close> replaces the matched entry.
\<close>

theorem edit_phone_ascii_counterexample:
  "\<not> spec_phone_pattern [0x660, 0x660, 0x660, 0x660, 0x660, 0x660, 0x660, 0x660, 0x660, 0x660] \<and>
   edit_phone rec_A [0x35, 0x35, 0x35, 0x35, 0x35, 0x35, 0x35, 0x35, 0x35, 0x35]
     [0x660, 0x660, 0x660, 0x660, 0x660, 0x660, 0x660, 0x660, 0x660, 0x660]
   = (Inr (),
      rec_A\<lparr>phones :=
        [Field [0x31, 0x32, 0x33, 0x34, 0x35, 0x36, 0x37, 0x38, 0x39, 0x30],
         Field [0x660, 0x660, 0x660, 0x660, 0x660, 0x660, 0x660, 0x660, 0x660, 0x660]]\<rparr>)"
  by (simp add: spec_phone_pattern_def ascii_digit_def edit_phone_def rec_A_def
        Phone_init_eq is_decimal_arabic_indic)

subsection \<open>The directory\<close>

lemma dict_contains_iff: "dict_contains d k \<longleftrightarrow> k \<in> fst ` set d"
  by (induction d) (auto simp: dict_contains_def)

lemma delete_absent: "n \<notin> fst ` set book \<Longrightarrow> delete book n = Inr book"
  by (simp add: delete_def dict_contains_iff)

lemma dict_delitem_present:
  "k \<in> fst ` set d \<Longrightarrow>
   \<exists>pre v post. d = pre @ (k, v) # post \<and> k \<notin> fst ` set pre \<and>
      dict_delitem d k = Inr (pre @ post)"
proof (induction d)
  case Nil
  then show ?case by simp
next
  case (Cons a d)
  obtain k' v' where a: "a = (k', v')" by (cases a)
  show ?case
  proof (cases "k' = k")
    case True
    with a have "a # d = [] @ (k, v') # d \<and> k \<notin> fst ` set [] \<and>
        dict_delitem (a # d) k = Inr ([] @ d)"
      by simp
    then show ?thesis by blast
  next
    case False
    with Cons.prems a have "k \<in> fst ` set d" by auto
    from Cons.IH [OF this] obtain pre v post where
      "d = pre @ (k, v) # post" "k \<notin> fst ` set pre" "dict_delitem d k = Inr (pre @ post)"
      by blast
    with False a have "a # d = (a # pre) @ (k, v) # post \<and> k \<notin> fst ` set (a # pre)
        \<and> dict_delitem (a # d) k = Inr ((a # pre) @ post)"
      by auto
    then show ?thesis by blast
  qed
qed

lemma delete_present:
  assumes "n \<in> fst ` set book"
  shows "\<exists>pre r post. book = pre @ (n, r) # post \<and> n \<notin> fst ` set pre \<and>
           delete book n = Inr (pre @ post)"
  using dict_delitem_present [OF assms] assms
  by (simp add: delete_def dict_contains_iff)

text \<open>
  Claim C10. \<open>delete\<close> of a name that is not a key raises nothing and returns the
  directory as it was. \<open>delete\<close> of a name that is a key raises nothing and removes the
  entry of that key and no other: the entries before it and after it stay, in their
  order, and (the keys of a dictionary being distinct) the name is no longer a key.
\<close>

theorem delete_absent_present:
  "(n \<notin> fst ` set book \<longrightarrow> delete book n = Inr book) \<and>
   (n \<in> fst ` set book \<longrightarrow>
      (\<exists>pre r post. book = pre @ (n, r) # post \<and> n \<notin> fst ` set pre \<and>
         delete book n = Inr (pre @ post) \<and>
         (wf_book book \<longrightarrow> n \<notin> fst ` set (pre @ post))))"
proof (intro conjI impI)
  assume "n \<notin> fst ` set book"
  then show "delete book n = Inr book" by (rule delete_absent)
next
  assume n: "n \<in> fst ` set book"
  from delete_present [OF n] obtain pre r post where
    *: "book = pre @ (n, r) # post" "n \<notin> fst ` set pre" "delete book n = Inr (pre @ post)"
    by blast
  have "wf_book book \<longrightarrow> n \<notin> fst ` set (pre @ post)"
    using *(1) by (auto simp: wf_book_def)
  with * show "\<exists>pre r post. book = pre @ (n, r) # post \<and> n \<notin> fst ` set pre \<and>
         delete book n = Inr (pre @ post) \<and>
         (wf_book book \<longrightarrow> n \<notin> fst ` set (pre @ post))"
    by blast
qed

theorem delete_absent_present_witness:
  "wf_book [([0x41], rec_A), ([0x42], rec_B)] \<and>
   delete [([0x41], rec_A), ([0x42], rec_B)] [0x43] = Inr [([0x41], rec_A), ([0x42], rec_B)] \<and>
   delete [([0x41], rec_A), ([0x42], rec_B)] [0x41] = Inr [([0x42], rec_B)]"
  using delete_absent_present [of "[0x43]" "[([0x41], rec_A), ([0x42], rec_B)]"]
    delete_absent_present [of "[0x41]" "[([0x41], rec_A), ([0x42], rec_B)]"]
  by (simp add: wf_book_def delete_def dict_contains_def)

lemma delete_total:
  "\<exists>book'. delete book n = Inr book' \<and> set book' \<subseteq> set book \<and>
     (wf_book book \<longrightarrow> wf_book book')"
proof (cases "n \<in> fst ` set book")
  case True
  from delete_present [OF this] show ?thesis by (auto simp: wf_book_def)
next
  case False
  then show ?thesis by (simp add: delete_absent)
qed

lemma name_is_key_add_record:
  "name_is_key book \<Longrightarrow> name_is_key (add_record book r)"
  unfolding add_record_def name_is_key_def
  by (induction book) auto

lemma exec_name_is_key:
  assumes "name_is_key book"
  shows "\<exists>book'. exec book c = Inr book' \<and> name_is_key book'"
proof (cases c)
  case (Add r)
  with assms show ?thesis by (simp add: name_is_key_add_record)
next
  case (Find n)
  with assms show ?thesis by simp
next
  case (Delete n)
  with delete_total [of book n] assms show ?thesis
    by (auto simp: name_is_key_def list_all_iff)
qed

lemma run_name_is_key:
  "name_is_key book \<Longrightarrow> \<exists>book'. run book cs = Inr book' \<and> name_is_key book'"
proof (induction cs arbitrary: book)
  case Nil
  then show ?case by simp
next
  case (Cons c cs)
  from exec_name_is_key [OF Cons.prems, of c] obtain b where
    "exec book c = Inr b" "name_is_key b" by blast
  with Cons.IH [of b] show ?case by (simp add: bind_def)
qed

text \<open>
  Claim C8. Every run of \<open>add\<close>, \<open>find\<close> and \<open>delete\<close> operations from the empty
  directory ends without an exception, in a directory where every record is stored
  under the key that equals its \<open>name.value\<close>.
\<close>

theorem reachable_name_is_key:
  "\<exists>book. run [] cs = Inr book \<and> (\<forall>(k, r) \<in> set book. field_value (name r) = k)"
  using run_name_is_key [of "[]" cs] by (auto simp: name_is_key_def list_all_iff)

theorem reachable_name_is_key_witness:
  "run [] [Add rec_A, Add rec_B, Find [0x41], Delete [0x41], Delete [0x43]]
     = Inr [([0x42], rec_B)] \<and>
   field_value (name rec_B) = [0x42]"
  using reachable_name_is_key [of "[Add rec_A, Add rec_B, Find [0x41], Delete [0x41], Delete [0x43]]"]
  by (simp add: bind_def add_record_def find_record_def delete_def dict_contains_def
        rec_A_def rec_B_def)

subsection \<open>Upcoming birthdays\<close>

lemma bind_simps:
  "bind (Inl e) f = Inl e"
  "bind (Inr v) f = f v"
  by (simp_all add: bind_def)

lemma in_window_True:
  "in_window today days p = Inr True \<longleftrightarrow>
     datetime_le today p \<and>
     (\<exists>delta limit. timedelta days = Inr delta \<and> datetime_add today delta = Inr limit \<and>
        datetime_le p limit)"
  by (auto simp: in_window_def bind_def split: sum.splits)

lemma in_window_error:
  "in_window today days p = Inl e \<Longrightarrow>
     (\<exists>m. e = OverflowError m) \<and>
     \<not> (\<exists>delta limit. timedelta days = Inr delta \<and> datetime_add today delta = Inr limit)"
  by (auto simp: in_window_def bind_def timedelta_def datetime_add_def Let_def
           split: sum.splits if_splits prod.splits)

lemma upcoming_loop_filter:
  "upcoming_loop today days acc rs = Inr res \<Longrightarrow>
   res = acc @ filter (qualifies today days) rs"
proof (induction rs arbitrary: acc)
  case Nil
  then show ?case by simp
next
  case (Cons r rs)
  show ?case
  proof (cases "birthday r")
    case None
    with Cons show ?thesis by (simp add: qualifies_def)
  next
    case (Some b)
    show ?thesis
    proof (cases "replace_year (field_value b) (year today)")
      case (Inl e)
      with Some Cons.prems show ?thesis by (simp add: bind_simps)
    next
      case (Inr p)
      show ?thesis
      proof (cases "in_window today days p")
        case (Inl e)
        with Some Inr Cons.prems show ?thesis by (simp add: bind_simps)
      next
        case inw: (Inr inside)
        show ?thesis
        proof (cases inside)
          case True
          with Some Inr inw Cons.prems
          have "upcoming_loop today days (acc @ [r]) rs = Inr res" by (simp add: bind_simps)
          from Cons.IH [OF this] Some Inr inw True show ?thesis
            by (simp add: qualifies_def)
        next
          case False
          with Some Inr inw Cons.prems
          have "upcoming_loop today days acc rs = Inr res" by (simp add: bind_simps)
          from Cons.IH [OF this] Some Inr inw False show ?thesis
            by (simp add: qualifies_def)
        qed
      qed
    qed
  qed
qed

lemma upcoming_loop_error_source:
  "upcoming_loop today days acc rs = Inl e \<Longrightarrow>
   (\<exists>r \<in> set rs. \<exists>b. birthday r = Some b \<and>
       replace_year (field_value b) (year today) = Inl e) \<or>
   ((\<exists>m. e = OverflowError m) \<and>
    \<not> (\<exists>delta limit. timedelta days = Inr delta \<and> datetime_add today delta = Inr limit))"
proof (induction rs arbitrary: acc)
  case Nil
  then show ?case by simp
next
  case (Cons r rs)
  show ?case
  proof (cases "birthday r")
    case None
    with Cons.prems have "upcoming_loop today days acc rs = Inl e" by simp
    from Cons.IH [OF this] show ?thesis by auto
  next
    case (Some b)
    show ?thesis
    proof (cases "replace_year (field_value b) (year today)")
      case (Inl e')
      with Some Cons.prems have "e' = e" by (simp add: bind_simps)
      with Inl Some show ?thesis by auto
    next
      case (Inr p)
      show ?thesis
      proof (cases "in_window today days p")
        case (Inl e')
        with Some Inr Cons.prems have "e' = e" by (simp add: bind_simps)
        with Inl in_window_error [of today days p e] show ?thesis by blast
      next
        case inw: (Inr inside)
        with Some Inr Cons.prems
        have "\<exists>acc'. upcoming_loop today days acc' rs = Inl e"
          by (cases inside) (auto simp: bind_simps)
        then obtain acc' where "upcoming_loop today days acc' rs = Inl e" ..
        from Cons.IH [OF this] show ?thesis by auto
      qed
    qed
  qed
qed

text \<open>Scanning a directory in two parts: the second part goes on from what the first found.\<close>

lemma upcoming_loop_append:
  "upcoming_loop today days acc (rs @ rs') =
     (case upcoming_loop today days acc rs of
        Inl e \<Rightarrow> Inl e
      | Inr found \<Rightarrow> upcoming_loop today days found rs')"
proof (induction rs arbitrary: acc)
  case Nil
  then show ?case by simp
next
  case (Cons r rs)
  show ?case
  proof (cases "birthday r")
    case None
    with Cons show ?thesis by simp
  next
    case (Some b)
    show ?thesis
    proof (cases "replace_year (field_value b) (year today)")
      case (Inl e)
      with Some show ?thesis by (simp add: bind_simps)
    next
      case (Inr p)
      show ?thesis
      proof (cases "in_window today days p")
        case (Inl e)
        with Some Inr show ?thesis by (simp add: bind_simps)
      next
        case inw: (Inr inside)
        with Some Inr Cons.IH show ?thesis by (cases inside) (simp_all add: bind_simps)
      qed
    qed
  qed
qed

lemma replace_year_error_valid:
  assumes "valid_datetime dt" "valid_datetime today"
    and "replace_year dt (year today) = Inl e"
  shows "e = ValueError ''day is out of range for month'' \<and> month dt = 2 \<and> day dt = 29 \<and> \<not> is_leap (year today)"
  using assms
  apply (simp add: valid_datetime_def replace_year_def datetime_new_def split: if_splits)
  apply (auto simp: days_in_month_def DAYS_IN_MONTH_def split: if_splits)
  done

lemma replace_year_feb29:
  assumes "month dt = 2" "day dt = 29" "\<not> is_leap y" "MINYEAR \<le> y" "y \<le> MAXYEAR"
  shows "replace_year dt y = Inl (ValueError ''day is out of range for month'')"
  using assms by (simp add: replace_year_def datetime_new_def days_in_month_def DAYS_IN_MONTH_def)

text \<open>The definitions that evaluate the calendar on concrete dates.\<close>

lemmas calendar_eval =
  replace_year_def datetime_new_def MINYEAR_def MAXYEAR_def MAXORDINAL_def days_in_month_def
  DAYS_IN_MONTH_def DAYS_BEFORE_MONTH_def is_leap_def datetime_add_def toordinal_def
  ymd2ord_def days_before_year_def days_before_month_def ord2ymd_def DI400Y_def DI100Y_def
  DI4Y_def Let_def datetime_le_def timedelta_def midnight_def

lemma add_week_june: "datetime_add (midnight 2024 6 1) 7 = Inr (midnight 2024 6 8)"
  by (simp add: calendar_eval)

lemma add_week_december: "datetime_add (midnight 2024 12 30) 7 = Inr (midnight 2025 1 6)"
  by (simp add: calendar_eval)

lemmas upcoming_eval = get_upcoming_birthdays_def born_def bind_def in_window_def calendar_eval

lemma june_ninth_excluded: "get_upcoming_birthdays [([0x41], born [0x41] 1990 6 9)] 7 (midnight 2024 6 1)
   = Inr []"
  by (simp add: upcoming_eval)
lemma qualifies_iff:
  "qualifies today days r \<longleftrightarrow>
     (\<exists>b p delta limit. birthday r = Some b \<and>
        replace_year (field_value b) (year today) = Inr p \<and>
        timedelta days = Inr delta \<and> datetime_add today delta = Inr limit \<and>
        datetime_le today p \<and> datetime_le p limit)"
  unfolding qualifies_def in_window_True by blast

lemma Birthday_init_0906:
  "Birthday_init [0x30, 0x39, 0x2E, 0x30, 0x36, 0x2E, 0x31, 0x39, 0x39, 0x30]
     = Inr (Field (midnight 1990 6 9))"
  by (simp add: Birthday_init_def strptime_dmY_def re_dmY_def group_d_def group_m_def
        group_Y_def alt_def seq_def chr_lit_def chr_range_def chr_in_simps rep_chr_in
        is_decimal_def decimal_def decimal_zeros_def bind_def py_int_def calendar_eval)

lemma datetime_le_date_time:
  "datetime_le a b \<longleftrightarrow>
     date_of a < date_of b \<or> date_of a = date_of b \<and> time_of a \<le> time_of b"
  by (auto simp: datetime_le_def date_of_def time_of_def)

lemma valid_datetime_time: "valid_datetime dt \<Longrightarrow> (0, 0, 0, 0) \<le> time_of dt"
  by (auto simp: valid_datetime_def datetime_new_def time_of_def split: if_splits)

lemma time_le_midnight:
  "(0, 0, 0, 0) \<le> time_of dt \<Longrightarrow> time_of dt \<le> (0, 0, 0, 0) \<longleftrightarrow> time_of dt = (0, 0, 0, 0)"
  by auto

lemma replace_year_Inr:
  "replace_year dt y = Inr p \<Longrightarrow>
     date_of p = (y, month dt, day dt) \<and> time_of p = time_of dt"
  by (auto simp: replace_year_def datetime_new_def date_of_def time_of_def split: if_splits)

lemma datetime_add_time: "datetime_add dt delta = Inr limit \<Longrightarrow> time_of limit = time_of dt"
  by (auto simp: datetime_add_def Let_def time_of_def split: if_splits prod.splits)

lemma within_days_iff:
  "within_days today days r \<longleftrightarrow>
     (\<exists>b p delta limit. birthday r = Some b \<and>
        replace_year (field_value b) (year today) = Inr p \<and>
        timedelta days = Inr delta \<and> datetime_add today delta = Inr limit \<and>
        date_of today \<le> date_of p \<and> date_of p \<le> date_of limit)"
  by (auto simp: within_days_def bind_def split: option.splits sum.splits)

text \<open>
  What the loop decides, in whole days, for a birthday stored at 00:00 and a valid
  reference: the window of the specification, less the day of the reference itself
  when the reference is not at 00:00.
\<close>

lemma qualifies_within_days:
  assumes "valid_datetime today"
    and "\<And>b. birthday r = Some b \<Longrightarrow> time_of (field_value b) = (0, 0, 0, 0)"
  shows "qualifies today days r \<longleftrightarrow>
           within_days today days r \<and>
           (on_reference_day today r \<longrightarrow> time_of today = (0, 0, 0, 0))"
proof (cases "birthday r")
  case None
  then show ?thesis by (simp add: qualifies_def within_days_def)
next
  case (Some b)
  note b = this
  from assms(2) [OF b] have tb: "time_of (field_value b) = (0, 0, 0, 0)" .
  from valid_datetime_time [OF assms(1)] have t0: "(0, 0, 0, 0) \<le> time_of today" .
  show ?thesis
  proof (cases "replace_year (field_value b) (year today)")
    case (Inl e)
    with b show ?thesis by (simp add: qualifies_def within_days_def)
  next
    case (Inr p)
    note p = this
    from replace_year_Inr [OF p] tb
    have dp: "date_of p = (year today, month (field_value b), day (field_value b))"
      and tp: "time_of p = (0, 0, 0, 0)" by simp_all
    have same: "on_reference_day today r \<longleftrightarrow> date_of p = date_of today"
      using b dp by (auto simp: on_reference_day_def date_of_def)
    have low: "datetime_le today p \<longleftrightarrow>
                 date_of today \<le> date_of p \<and>
                 (date_of p = date_of today \<longrightarrow> time_of today = (0, 0, 0, 0))"
      unfolding datetime_le_date_time tp using t0 by auto
    show ?thesis
    proof (cases "bind (timedelta days) (datetime_add today)")
      case (Inl e)
      then have "in_window today days p \<noteq> Inr True"
        by (auto simp: in_window_def bind_def split: sum.splits if_splits)
      with b p Inl show ?thesis by (simp add: qualifies_def within_days_def)
    next
      case (Inr limit)
      note l = this
      then obtain delta where d: "timedelta days = Inr delta" "datetime_add today delta = Inr limit"
        by (auto simp: bind_def split: sum.splits)
      from datetime_add_time [OF d(2)] have tl: "time_of limit = time_of today" .
      have up: "datetime_le p limit \<longleftrightarrow> date_of p \<le> date_of limit"
        unfolding datetime_le_date_time tp tl using t0 by auto
      have "in_window today days p = Inr True \<longleftrightarrow> datetime_le today p \<and> datetime_le p limit"
        using d by (simp add: in_window_def bind_def)
      with b p l low up same show ?thesis
        by (auto simp: qualifies_def within_days_def)
    qed
  qed
qed

lemmas window_eval =
  within_days_def on_reference_day_def date_of_def time_of_def at_time_def valid_datetime_def

lemma upcoming_whole_days:
  assumes today: "valid_datetime today"
    and mid: "\<forall>(k, r) \<in> set book. \<forall>b. birthday r = Some b \<longrightarrow>
                time_of (field_value b) = (0, 0, 0, 0)"
    and res: "get_upcoming_birthdays book days today = Inr res"
  shows "res = filter (\<lambda>r. within_days today days r \<and>
                 (on_reference_day today r \<longrightarrow> time_of today = (0, 0, 0, 0)))
                (map snd book)"
proof -
  from res have "res = filter (qualifies today days) (map snd book)"
    unfolding get_upcoming_birthdays_def by (auto dest: upcoming_loop_filter)
  also have "\<dots> = filter (\<lambda>r. within_days today days r \<and>
                 (on_reference_day today r \<longrightarrow> time_of today = (0, 0, 0, 0)))
                (map snd book)"
  proof (rule filter_cong [OF refl])
    fix r
    assume "r \<in> set (map snd book)"
    then obtain k where "(k, r) \<in> set book" by auto
    with mid have "\<And>b. birthday r = Some b \<Longrightarrow> time_of (field_value b) = (0, 0, 0, 0)"
      by blast
    from qualifies_within_days [OF today this]
    show "qualifies today days r \<longleftrightarrow> within_days today days r \<and>
            (on_reference_day today r \<longrightarrow> time_of today = (0, 0, 0, 0))" .
  qed
  finally show ?thesis .
qed

text \<open>
  Claim C1, as the code has it. For a reference read from a valid clock and birthdays
  stored at 00:00 (as \<open>Birthday\<close> builds them), whenever \<open>get_upcoming_birthdays\<close> returns
  (no exception on the way): every record it returns is a record of the directory with
  a birthday whose projection on the reference's year satisfies
  \<open>referenceDate \<le> projectedBirthday \<le> referenceDate + windowDays\<close> in whole days, both
  ends included; every such record whose birthday is not on the day of the reference
  itself is returned; and when the reference is a date at 00:00 the result is exactly
  the records in that window, in the directory's order. With \<open>days = 7\<close> and the
  reference 2024-06-01, a birthday 05.06.1990 is included, 08.06.1990 is included (the
  last day of the window), 09.06.1990 and 10.06.1990 are not.
\<close>

theorem upcoming_birthdays_window:
  "(valid_datetime today \<and>
    (\<forall>(k, r) \<in> set book. \<forall>b. birthday r = Some b \<longrightarrow>
        time_of (field_value b) = (0, 0, 0, 0)) \<and>
    get_upcoming_birthdays book days today = Inr res \<longrightarrow>
      (\<forall>r. r \<in> set res \<longrightarrow> r \<in> snd ` set book \<and> within_days today days r) \<and>
      (\<forall>r. r \<in> snd ` set book \<and> within_days today days r \<and> \<not> on_reference_day today r
           \<longrightarrow> r \<in> set res) \<and>
      (time_of today = (0, 0, 0, 0) \<longrightarrow>
         res = filter (within_days today days) (map snd book))) \<and>
   get_upcoming_birthdays [([0x41], born [0x41] 1990 6 5)] 7 (midnight 2024 6 1)
     = Inr [born [0x41] 1990 6 5] \<and>
   get_upcoming_birthdays [([0x41], born [0x41] 1990 6 8)] 7 (midnight 2024 6 1)
     = Inr [born [0x41] 1990 6 8] \<and>
   get_upcoming_birthdays [([0x41], born [0x41] 1990 6 9)] 7 (midnight 2024 6 1)
     = Inr [] \<and>
   get_upcoming_birthdays [([0x41], born [0x41] 1990 6 10)] 7 (midnight 2024 6 1)
     = Inr []"
proof -
  have gen: "valid_datetime today \<and>
    (\<forall>(k, r) \<in> set book. \<forall>b. birthday r = Some b \<longrightarrow>
        time_of (field_value b) = (0, 0, 0, 0)) \<and>
    get_upcoming_birthdays book days today = Inr res \<longrightarrow>
      (\<forall>r. r \<in> set res \<longrightarrow> r \<in> snd ` set book \<and> within_days today days r) \<and>
      (\<forall>r. r \<in> snd ` set book \<and> within_days today days r \<and> \<not> on_reference_day today r
           \<longrightarrow> r \<in> set res) \<and>
      (time_of today = (0, 0, 0, 0) \<longrightarrow>
         res = filter (within_days today days) (map snd book))"
  proof (rule impI)
    assume "valid_datetime today \<and>
      (\<forall>(k, r) \<in> set book. \<forall>b. birthday r = Some b \<longrightarrow>
          time_of (field_value b) = (0, 0, 0, 0)) \<and>
      get_upcoming_birthdays book days today = Inr res"
    then have res: "res = filter (\<lambda>r. within_days today days r \<and>
                   (on_reference_day today r \<longrightarrow> time_of today = (0, 0, 0, 0)))
                  (map snd book)"
      by (intro upcoming_whole_days) simp_all
    show "(\<forall>r. r \<in> set res \<longrightarrow> r \<in> snd ` set book \<and> within_days today days r) \<and>
        (\<forall>r. r \<in> snd ` set book \<and> within_days today days r \<and> \<not> on_reference_day today r
             \<longrightarrow> r \<in> set res) \<and>
        (time_of today = (0, 0, 0, 0) \<longrightarrow>
           res = filter (within_days today days) (map snd book))"
      unfolding res by (auto intro: filter_cong)
  qed
  have e1: "get_upcoming_birthdays [([0x41], born [0x41] 1990 6 5)] 7 (midnight 2024 6 1)
     = Inr [born [0x41] 1990 6 5]"
    and e2: "get_upcoming_birthdays [([0x41], born [0x41] 1990 6 8)] 7 (midnight 2024 6 1)
     = Inr [born [0x41] 1990 6 8]"
    and e3: "get_upcoming_birthdays [([0x41], born [0x41] 1990 6 9)] 7 (midnight 2024 6 1)
     = Inr []"
    and e4: "get_upcoming_birthdays [([0x41], born [0x41] 1990 6 10)] 7 (midnight 2024 6 1)
     = Inr []"
    by (simp_all add: upcoming_eval)
  show ?thesis
    by (rule conjI [OF gen conjI [OF e1 conjI [OF e2 conjI [OF e3 e4]]]])
qed

theorem upcoming_birthdays_window_witness:
  "valid_datetime (at_time 2024 6 1 12 30 15) \<and>
   get_upcoming_birthdays
     [([0x41], born [0x41] 1990 6 5), ([0x42], rec_B), ([0x43], born [0x43] 1985 6 9),
      ([0x44], born [0x44] 1970 6 8)]
     7 (at_time 2024 6 1 12 30 15)
   = Inr [born [0x41] 1990 6 5, born [0x44] 1970 6 8] \<and>
   within_days (at_time 2024 6 1 12 30 15) 7 (born [0x44] 1970 6 8) \<and>
   \<not> on_reference_day (at_time 2024 6 1 12 30 15) (born [0x44] 1970 6 8) \<and>
   born [0x44] 1970 6 8 \<in> set [born [0x41] 1990 6 5, born [0x44] 1970 6 8] \<and>
   \<not> within_days (at_time 2024 6 1 12 30 15) 7 (born [0x43] 1985 6 9) \<and>
   get_upcoming_birthdays
     [([0x41], born [0x41] 1990 6 5), ([0x42], rec_B), ([0x43], born [0x43] 1985 6 9),
      ([0x44], born [0x44] 1970 6 8)]
     7 (midnight 2024 6 1)
   = Inr (filter (within_days (midnight 2024 6 1) 7)
            [born [0x41] 1990 6 5, rec_B, born [0x43] 1985 6 9, born [0x44] 1970 6 8])"
proof -
  let ?book = "[([0x41], born [0x41] 1990 6 5), ([0x42], rec_B), ([0x43], born [0x43] 1985 6 9),
      ([0x44], born [0x44] 1970 6 8)] :: AddressBook"
  let ?noon = "at_time 2024 6 1 12 30 15"
  let ?res = "[born [0x41] 1990 6 5, born [0x44] 1970 6 8]"
  have v: "valid_datetime ?noon" by (simp add: window_eval calendar_eval)
  have v0: "valid_datetime (midnight 2024 6 1)" by (simp add: window_eval calendar_eval)
  have mid: "\<forall>(k, r) \<in> set ?book. \<forall>b. birthday r = Some b \<longrightarrow>
               time_of (field_value b) = (0, 0, 0, 0)"
    by (simp add: born_def rec_B_def midnight_def time_of_def)
  have run: "get_upcoming_birthdays ?book 7 ?noon = Inr ?res"
    by (simp add: upcoming_eval rec_B_def at_time_def)
  have run0: "get_upcoming_birthdays ?book 7 (midnight 2024 6 1) = Inr ?res"
    by (simp add: upcoming_eval rec_B_def)
  have w: "within_days ?noon 7 (born [0x44] 1970 6 8)"
    by (simp add: window_eval born_def bind_def calendar_eval)
  have n: "\<not> on_reference_day ?noon (born [0x44] 1970 6 8)"
    by (simp add: window_eval born_def midnight_def)
  have out: "\<not> within_days ?noon 7 (born [0x43] 1985 6 9)"
    by (simp add: window_eval born_def bind_def calendar_eval)
  have m: "born [0x44] 1970 6 8 \<in> snd ` set ?book" by simp
  note t = upcoming_birthdays_window [of ?noon ?book 7 ?res, THEN conjunct1, THEN mp,
             OF conjI [OF v conjI [OF mid run]]]
  from t [THEN conjunct2, THEN conjunct1, THEN spec, THEN mp, OF conjI [OF m conjI [OF w n]]]
  have mem: "born [0x44] 1970 6 8 \<in> set ?res" .
  have t0: "time_of (midnight 2024 6 1) = (0, 0, 0, 0)" by (simp add: time_of_def midnight_def)
  note u = upcoming_birthdays_window [of "midnight 2024 6 1" ?book 7 ?res, THEN conjunct1,
             THEN mp, OF conjI [OF v0 conjI [OF mid run0]]]
  from u [THEN conjunct2, THEN conjunct2, THEN mp, OF t0]
  have "?res = filter (within_days (midnight 2024 6 1) 7) (map snd ?book)" .
  with run0 have whole: "get_upcoming_birthdays ?book 7 (midnight 2024 6 1)
     = Inr (filter (within_days (midnight 2024 6 1) 7)
            [born [0x41] 1990 6 5, rec_B, born [0x43] 1985 6 9, born [0x44] 1970 6 8])"
    by simp
  show ?thesis
    by (rule conjI [OF v conjI [OF run conjI [OF w conjI [OF n conjI [OF mem
          conjI [OF out whole]]]]]])
qed

text \<open>
  The claim as the specification words it fails at its own example: seen from
  2024-06-01 with a window of 7 days, whose last day is 2024-06-08, the birthday
  09.06.1990 is not returned.
\<close>

theorem upcoming_day_eight_counterexample:
  "Birthday_init [0x30, 0x39, 0x2E, 0x30, 0x36, 0x2E, 0x31, 0x39, 0x39, 0x30]
     = Inr (Field (midnight 1990 6 9)) \<and>
   datetime_add (midnight 2024 6 1) 7 = Inr (midnight 2024 6 8) \<and>
   get_upcoming_birthdays [([0x41], born [0x41] 1990 6 9)] 7 (midnight 2024 6 1) = Inr []"
  by (simp add: Birthday_init_0906 add_week_june june_ninth_excluded)

text \<open>
  Outside the statement above: a birthday on the day of the reference itself. The
  comparison \<open>today <= birthday\<close> sets the clock's time of day against a birthday at
  00:00, so the record is returned when the clock reads 00:00 and is not returned at
  12:30:15.
\<close>

lemma birthday_on_reference_day:
  "get_upcoming_birthdays [([0x41], born [0x41] 1990 6 1)] 7 (midnight 2024 6 1)
     = Inr [born [0x41] 1990 6 1] \<and>
   get_upcoming_birthdays [([0x41], born [0x41] 1990 6 1)] 7 (at_time 2024 6 1 12 30 15)
     = Inr []"
  by (simp add: upcoming_eval at_time_def)

text \<open>
  Claim C2. A record whose birthday, projected on the year of \<open>today\<close>, lies strictly
  before \<open>today\<close> is in no result of \<open>get_upcoming_birthdays\<close>, whatever the window: the
  projection is never moved to the next year. The instance after it is the birthday
  of 2 January seen from 30 December with a window of 7 days, which the next year's
  projection would have been in.
\<close>

theorem no_rollover_to_next_year:
  assumes "(k, r) \<in> set book" and "birthday r = Some b"
    and "replace_year (field_value b) (year today) = Inr p"
    and "\<not> datetime_le today p"
  shows "\<forall>res. get_upcoming_birthdays book days today = Inr res \<longrightarrow> r \<notin> set res"
proof (intro allI impI)
  fix res
  assume "get_upcoming_birthdays book days today = Inr res"
  then have res: "res = filter (qualifies today days) (map snd book)"
    unfolding get_upcoming_birthdays_def by (auto dest: upcoming_loop_filter)
  from assms(2-4) have "\<not> qualifies today days r"
    by (auto simp: qualifies_iff)
  with res show "r \<notin> set res" by simp
qed

theorem no_rollover_to_next_year_witness:
  "replace_year (midnight 1990 1 2) (year (midnight 2024 12 30)) = Inr (midnight 2024 1 2) \<and>
   \<not> datetime_le (midnight 2024 12 30) (midnight 2024 1 2) \<and>
   datetime_add (midnight 2024 12 30) 7 = Inr (midnight 2025 1 6) \<and>
   datetime_le (midnight 2025 1 2) (midnight 2025 1 6) \<and>
   get_upcoming_birthdays [([0x41], born [0x41] 1990 1 2)] 7 (midnight 2024 12 30) = Inr [] \<and>
   born [0x41] 1990 1 2 \<notin> set []"
proof -
  have a: "([0x41], born [0x41] 1990 1 2) \<in> set [([0x41], born [0x41] 1990 1 2)]" by simp
  have b: "birthday (born [0x41] 1990 1 2) = Some (Field (midnight 1990 1 2))"
    by (simp add: born_def)
  have c: "replace_year (field_value (Field (midnight 1990 1 2))) (year (midnight 2024 12 30))
             = Inr (midnight 2024 1 2)"
    by (simp add: calendar_eval)
  have d: "\<not> datetime_le (midnight 2024 12 30) (midnight 2024 1 2)"
    by (simp add: calendar_eval)
  have e: "get_upcoming_birthdays [([0x41], born [0x41] 1990 1 2)] 7 (midnight 2024 12 30)
             = Inr []"
    by (simp add: upcoming_eval)
  from no_rollover_to_next_year [OF a b c d, of 7] e
  have "born [0x41] 1990 1 2 \<notin> set []" by blast
  with c d e show ?thesis by (simp add: add_week_december) (simp add: calendar_eval)
qed

lemma upcoming_loop_failing_record:
  assumes "birthday r = Some b" "replace_year (field_value b) (year today) = Inl e"
  shows "upcoming_loop today days acc (pre @ r # post) =
           (case upcoming_loop today days acc pre of Inl e' \<Rightarrow> Inl e' | Inr found \<Rightarrow> Inl e)"
  using assms by (simp add: upcoming_loop_append bind_simps split: sum.splits)

lemma upcoming_loop_never_returns:
  assumes "r \<in> set rs" "birthday r = Some b"
    "replace_year (field_value b) (year today) = Inl e"
  shows "\<exists>e'. upcoming_loop today days acc rs = Inl e'"
proof -
  from assms(1) obtain pre post where "rs = pre @ r # post" by (auto dest: split_list)
  with upcoming_loop_failing_record [OF assms(2,3), of days acc pre post]
  show ?thesis by (auto split: sum.splits)
qed

text \<open>
  Claim C3, as the code has it. With a record whose birthday is 29 February in the
  directory and \<open>today\<close> in a year that is not a leap year, \<open>get_upcoming_birthdays\<close>
  never returns a result: it raises. The exception is the \<open>ValueError\<close> of the year
  projection, "day is out of range for month", except when the end of the window,
  \<open>today + timedelta(days)\<close>, cannot be computed: then it may be the \<open>OverflowError\<close> of
  that computation, raised for an earlier record. (\<open>today\<close> and the stored birthdays are
  \<open>datetime\<close> objects, hence valid.)
\<close>

theorem feb29_in_common_year_raises:
  assumes "(k, r) \<in> set book" and "birthday r = Some b"
    and "month (field_value b) = 2" and "day (field_value b) = 29"
    and "\<not> is_leap (year today)" and "valid_datetime today"
    and "\<forall>(k, r) \<in> set book. \<forall>b. birthday r = Some b \<longrightarrow> valid_datetime (field_value b)"
  shows "\<exists>e. get_upcoming_birthdays book days today = Inl e \<and>
           (e = ValueError ''day is out of range for month'' \<or>
            (\<exists>m. e = OverflowError m) \<and>
            \<not> (\<exists>delta limit. timedelta days = Inr delta \<and>
                  datetime_add today delta = Inr limit))"
proof -
  from assms(6) have yr: "MINYEAR \<le> year today" "year today \<le> MAXYEAR"
    by (auto simp: valid_datetime_def datetime_new_def split: if_splits)
  from replace_year_feb29 [OF assms(3,4,5) yr]
  have fails: "replace_year (field_value b) (year today)
                 = Inl (ValueError ''day is out of range for month'')" .
  from assms(1) have "r \<in> set (map snd book)" by force
  from upcoming_loop_never_returns [OF this assms(2) fails]
  obtain e where e: "get_upcoming_birthdays book days today = Inl e"
    unfolding get_upcoming_birthdays_def by blast
  then have "upcoming_loop today days [] (map snd book) = Inl e"
    by (simp add: get_upcoming_birthdays_def)
  from upcoming_loop_error_source [OF this]
  have "e = ValueError ''day is out of range for month'' \<or>
        (\<exists>m. e = OverflowError m) \<and>
        \<not> (\<exists>delta limit. timedelta days = Inr delta \<and> datetime_add today delta = Inr limit)"
  proof
    assume "\<exists>r\<in>set (map snd book). \<exists>b. birthday r = Some b \<and>
              replace_year (field_value b) (year today) = Inl e"
    then obtain k' r' b' where *: "(k', r') \<in> set book" "birthday r' = Some b'"
      "replace_year (field_value b') (year today) = Inl e" by auto
    with assms(7) have "valid_datetime (field_value b')" by blast
    from replace_year_error_valid [OF this assms(6) *(3)] show ?thesis by simp
  next
    assume "(\<exists>m. e = OverflowError m) \<and>
      \<not> (\<exists>delta limit. timedelta days = Inr delta \<and> datetime_add today delta = Inr limit)"
    then show ?thesis by simp
  qed
  with e show ?thesis by blast
qed

theorem feb29_in_common_year_raises_witness:
  "([0x42], born [0x42] 2000 2 29)
     \<in> set ([([0x41], born [0x41] 1990 6 5), ([0x42], born [0x42] 2000 2 29)] :: AddressBook) \<and>
   \<not> is_leap (year (midnight 2023 6 1)) \<and>
   valid_datetime (midnight 2023 6 1) \<and>
   valid_datetime (midnight 1990 6 5) \<and> valid_datetime (midnight 2000 2 29) \<and>
   datetime_add (midnight 2023 6 1) 7 = Inr (midnight 2023 6 8) \<and>
   get_upcoming_birthdays
     [([0x41], born [0x41] 1990 6 5), ([0x42], born [0x42] 2000 2 29)] 7 (midnight 2023 6 1)
   = Inl (ValueError ''day is out of range for month'')"
proof -
  let ?book = "[([0x41], born [0x41] 1990 6 5), ([0x42], born [0x42] 2000 2 29)] :: AddressBook"
  let ?today = "midnight 2023 6 1"
  have a: "([0x42], born [0x42] 2000 2 29) \<in> set ?book" by simp
  have b: "birthday (born [0x42] 2000 2 29) = Some (Field (midnight 2000 2 29))"
    by (simp add: born_def)
  have c: "month (field_value (Field (midnight 2000 2 29))) = 2"
    and d: "day (field_value (Field (midnight 2000 2 29))) = 29"
    by (simp_all add: midnight_def)
  have e: "\<not> is_leap (year ?today)" by (simp add: calendar_eval)
  have f: "valid_datetime ?today" by (simp add: valid_datetime_def calendar_eval)
  have v1: "valid_datetime (midnight 1990 6 5)" by (simp add: valid_datetime_def calendar_eval)
  have v2: "valid_datetime (midnight 2000 2 29)" by (simp add: valid_datetime_def calendar_eval)
  from v1 v2
  have g: "\<forall>(k, r) \<in> set ?book. \<forall>b. birthday r = Some b \<longrightarrow> valid_datetime (field_value b)"
    by (auto simp: born_def)
  have td: "timedelta 7 = Inr 7" by (simp add: timedelta_def)
  have add: "datetime_add ?today 7 = Inr (midnight 2023 6 8)" by (simp add: calendar_eval)
  from feb29_in_common_year_raises [OF a b c d e f g, of 7] td add
  have "get_upcoming_birthdays ?book 7 ?today = Inl (ValueError ''day is out of range for month'')"
    by auto
  with a e f v1 v2 add show ?thesis by blast
qed

text \<open>
  The claim as the specification words it fails when the window cannot be computed:
  with \<open>days\<close> = 1000000000 the record before the one of 29 February has its projected
  birthday after \<open>today\<close>, so \<open>timedelta(days=days)\<close> is evaluated and raises
  \<open>OverflowError\<close>; the projection of 29 February is never reached.
\<close>

theorem feb29_in_common_year_counterexample:
  "month (midnight 2000 2 29) = 2 \<and> day (midnight 2000 2 29) = 29 \<and>
   \<not> is_leap (year (midnight 2023 6 1)) \<and>
   get_upcoming_birthdays
     [([0x41], born [0x41] 1990 6 5), ([0x42], born [0x42] 2000 2 29)]
     1000000000 (midnight 2023 6 1)
   = Inl (OverflowError ''days=1000000000; must have magnitude <= 999999999'')"
  by (simp add: upcoming_eval show_int_def digits_of.simps)

text \<open>
  Claim C9, as the code has it. When the projection of a record's birthday fails, no
  result is returned, whatever was found before it and whatever comes after it: if the
  scan of the records before it raised nothing, \<open>get_upcoming_birthdays\<close> raises the
  error of that projection, and if it raised, that earlier error is the one raised.
\<close>

theorem projection_failure_aborts_scan:
  assumes "birthday r = Some b"
    and "replace_year (field_value b) (year today) = Inl e"
  shows "get_upcoming_birthdays (pre @ (k, r) # post) days today =
           (case get_upcoming_birthdays pre days today of
              Inl e' \<Rightarrow> Inl e'
            | Inr found \<Rightarrow> Inl e)"
  using upcoming_loop_failing_record [OF assms, of days "[]" "map snd pre" "map snd post"]
  by (simp add: get_upcoming_birthdays_def)

theorem projection_failure_aborts_scan_witness:
  "get_upcoming_birthdays [([0x41], born [0x41] 1990 6 5)] 7 (midnight 2023 6 1)
     = Inr [born [0x41] 1990 6 5] \<and>
   replace_year (midnight 2000 2 29) (year (midnight 2023 6 1))
     = Inl (ValueError ''day is out of range for month'') \<and>
   get_upcoming_birthdays
     [([0x41], born [0x41] 1990 6 5), ([0x42], born [0x42] 2000 2 29),
      ([0x43], born [0x43] 1990 6 3)] 7 (midnight 2023 6 1)
   = Inl (ValueError ''day is out of range for month'')"
proof -
  have b: "birthday (born [0x42] 2000 2 29) = Some (Field (midnight 2000 2 29))"
    by (simp add: born_def)
  have fails: "replace_year (field_value (Field (midnight 2000 2 29))) (year (midnight 2023 6 1))
                 = Inl (ValueError ''day is out of range for month'')"
    by (simp add: calendar_eval)
  have found: "get_upcoming_birthdays [([0x41], born [0x41] 1990 6 5)] 7 (midnight 2023 6 1)
                 = Inr [born [0x41] 1990 6 5]"
    by (simp add: upcoming_eval)
  from projection_failure_aborts_scan
         [OF b fails, of "[([0x41], born [0x41] 1990 6 5)]" "[0x42]"
            "[([0x43], born [0x43] 1990 6 3)]" 7]
  have "get_upcoming_birthdays
     [([0x41], born [0x41] 1990 6 5), ([0x42], born [0x42] 2000 2 29),
      ([0x43], born [0x43] 1990 6 3)] 7 (midnight 2023 6 1)
     = Inl (ValueError ''day is out of range for month'')"
    by (simp add: found)
  with found fails show ?thesis by simp
qed

text \<open>
  The claim as the specification words it fails when the window cannot be computed:
  with a window of 3000000 days the record before the one of 29 February makes
  \<open>today + timedelta(days)\<close> leave the years 1 to 9999, and the scan is aborted by that
  \<open>OverflowError\<close>, not by the error of the projection.
\<close>

theorem projection_failure_counterexample:
  "replace_year (midnight 2000 2 29) (year (midnight 2023 6 1))
     = Inl (ValueError ''day is out of range for month'') \<and>
   get_upcoming_birthdays
     [([0x41], born [0x41] 1990 6 5), ([0x42], born [0x42] 2000 2 29)]
     3000000 (midnight 2023 6 1)
   = Inl (OverflowError ''date value out of range'')"
  by (simp add: upcoming_eval)

subsection \<open>Parsing and rendering a birthday\<close>

lemma in_chr_in:
  "(a, r) \<in> set (chr_in P s) \<longleftrightarrow> (\<exists>c. s = c # r \<and> a = [c] \<and> P c)"
  by (cases s) (auto simp: chr_in_simps)

lemma in_seq:
  "(x, r) \<in> set (seq p q s) \<longleftrightarrow>
     (\<exists>a r1 b. (a, r1) \<in> set (p s) \<and> (b, r) \<in> set (q r1) \<and> x = a @ b)"
  by (force simp: seq_def)

lemma in_alt: "x \<in> set (alt p q s) \<longleftrightarrow> x \<in> set (p s) \<or> x \<in> set (q s)"
  by (simp add: alt_def)

lemma in_group_d: "(d, r) \<in> set (group_d s) \<longleftrightarrow> s = d @ r \<and> day_text d"
  unfolding group_d_def in_alt in_seq chr_lit_def chr_range_def in_chr_in day_text_def
  by (auto split: list.splits)

lemma in_group_m: "(m, r) \<in> set (group_m s) \<longleftrightarrow> s = m @ r \<and> month_text m"
  unfolding group_m_def in_alt in_seq chr_lit_def chr_range_def in_chr_in month_text_def
  by (auto split: list.splits)

lemma in_group_Y: "(y, r) \<in> set (group_Y s) \<longleftrightarrow> s = y @ r \<and> year_text y"
  unfolding group_Y_def rep_chr_in year_text_def
  by (auto simp: min_def)

lemma in_re_dmY_steps:
  "(d, m, y, r) \<in> set (re_dmY s) \<longleftrightarrow>
     (\<exists>r1 p1 r2 r3 p2 r4.
        (d, r1) \<in> set (group_d s) \<and> (p1, r2) \<in> set (chr_lit 0x2E r1) \<and>
        (m, r3) \<in> set (group_m r2) \<and> (p2, r4) \<in> set (chr_lit 0x2E r3) \<and>
        (y, r) \<in> set (group_Y r4))"
  unfolding re_dmY_def
  apply (simp add: Bex_def image_iff)
  apply blast
  done

lemma in_re_dmY:
  "(d, m, y, r) \<in> set (re_dmY s) \<longleftrightarrow>
     s = d @ 0x2E # m @ 0x2E # y @ r \<and> day_text d \<and> month_text m \<and> year_text y"
  unfolding in_re_dmY_steps in_group_d in_group_m in_group_Y chr_lit_def in_chr_in
  by auto

lemma not_decimal_dot: "\<not> is_decimal 0x2E"
  by (simp add: is_decimal_def decimal_def decimal_zeros_def)

lemma not_decimal_blank: "\<not> is_decimal 0x20"
  by (simp add: is_decimal_def decimal_def decimal_zeros_def)

lemma day_text_no_dot: "day_text d \<Longrightarrow> 0x2E \<notin> set d"
  using not_decimal_dot by (auto simp: day_text_def split: list.splits)

lemma month_text_no_dot: "month_text m \<Longrightarrow> 0x2E \<notin> set m"
  by (auto simp: month_text_def split: list.splits)

lemma split_at_first:
  "x \<notin> set a \<Longrightarrow> x \<notin> set a' \<Longrightarrow> a @ x # r = a' @ x # r' \<Longrightarrow> a = a' \<and> r = r'"
proof (induction a arbitrary: a')
  case Nil
  then show ?case by (cases a') auto
next
  case (Cons c a)
  then show ?case by (cases a') auto
qed

lemma dmY_unique:
  assumes "day_text d" "month_text m" "day_text d'" "month_text m'"
    and "length y = length y'"
    and "d @ 0x2E # m @ 0x2E # y @ r = d' @ 0x2E # m' @ 0x2E # y' @ r'"
  shows "d = d' \<and> m = m' \<and> y = y' \<and> r = r'"
proof -
  from split_at_first [OF day_text_no_dot [OF assms(1)] day_text_no_dot [OF assms(3)] assms(6)]
  have d: "d = d'" and 1: "m @ 0x2E # y @ r = m' @ 0x2E # y' @ r'" by simp_all
  from split_at_first [OF month_text_no_dot [OF assms(2)] month_text_no_dot [OF assms(4)] 1]
  have m: "m = m'" and 2: "y @ r = y' @ r'" by simp_all
  from 2 assms(5) have "y = y' \<and> r = r'" by simp
  with d m show ?thesis by simp
qed

text \<open>The first match of the pattern, when the text has the three groups and nothing more.\<close>

lemma re_dmY_head:
  assumes "day_text d" "month_text m" "year_text y"
  shows "\<exists>rest. re_dmY (d @ 0x2E # m @ 0x2E # y @ r) = (d, m, y, r) # rest"
proof -
  let ?s = "d @ 0x2E # m @ 0x2E # y @ r"
  from assms have mem: "(d, m, y, r) \<in> set (re_dmY ?s)" by (simp add: in_re_dmY)
  then obtain x rest where eq: "re_dmY ?s = x # rest" by (cases "re_dmY ?s") auto
  obtain d' m' y' r' where x: "x = (d', m', y', r')" by (cases x)
  from eq x have "(d', m', y', r') \<in> set (re_dmY ?s)" by simp
  then have *: "?s = d' @ 0x2E # m' @ 0x2E # y' @ r'" "day_text d'" "month_text m'" "year_text y'"
    by (simp_all add: in_re_dmY)
  from assms(3) *(4) have "length y = length y'" by (simp add: year_text_def)
  from dmY_unique [OF assms(1,2) *(2,3) this *(1)] x eq show ?thesis by simp
qed

lemma re_dmY_Cons:
  assumes "re_dmY s = (d, m, y, r) # rest"
  shows "s = d @ 0x2E # m @ 0x2E # y @ r \<and> day_text d \<and> month_text m \<and> year_text y"
proof -
  from assms have "(d, m, y, r) \<in> set (re_dmY s)" by simp
  then show ?thesis by (simp add: in_re_dmY)
qed

lemma bind_Inr_iff: "bind x f = Inr v \<longleftrightarrow> (\<exists>u. x = Inr u \<and> f u = Inr v)"
  by (cases x) (simp_all add: bind_def)

lemma strptime_dmY_Inr_iff:
  "strptime_dmY s = Inr dt \<longleftrightarrow>
     (\<exists>d m y D M Y. s = d @ 0x2E # m @ 0x2E # y \<and>
        day_text d \<and> month_text m \<and> year_text y \<and>
        py_int d = Inr D \<and> py_int m = Inr M \<and> py_int y = Inr Y \<and>
        datetime_new Y M D 0 0 0 0 = Inr dt)"
proof
  assume ok: "strptime_dmY s = Inr dt"
  then obtain d m y r rest where eq: "re_dmY s = (d, m, y, r) # rest"
    by (cases "re_dmY s") (auto simp: strptime_dmY_def)
  with ok have r: "r = []" by (auto simp: strptime_dmY_def split: if_splits)
  from ok eq r obtain D M Y where "py_int d = Inr D" "py_int m = Inr M" "py_int y = Inr Y"
    "datetime_new Y M D 0 0 0 0 = Inr dt"
    by (auto simp: strptime_dmY_def bind_Inr_iff)
  moreover from re_dmY_Cons [OF eq] r
  have "s = d @ 0x2E # m @ 0x2E # y" "day_text d" "month_text m" "year_text y" by simp_all
  ultimately
  show "\<exists>d m y D M Y. s = d @ 0x2E # m @ 0x2E # y \<and>
        day_text d \<and> month_text m \<and> year_text y \<and>
        py_int d = Inr D \<and> py_int m = Inr M \<and> py_int y = Inr Y \<and>
        datetime_new Y M D 0 0 0 0 = Inr dt"
    by blast
next
  assume "\<exists>d m y D M Y. s = d @ 0x2E # m @ 0x2E # y \<and>
        day_text d \<and> month_text m \<and> year_text y \<and>
        py_int d = Inr D \<and> py_int m = Inr M \<and> py_int y = Inr Y \<and>
        datetime_new Y M D 0 0 0 0 = Inr dt"
  then obtain d m y D M Y where *: "s = d @ 0x2E # m @ 0x2E # y"
    "day_text d" "month_text m" "year_text y"
    "py_int d = Inr D" "py_int m = Inr M" "py_int y = Inr Y"
    "datetime_new Y M D 0 0 0 0 = Inr dt" by blast
  from re_dmY_head [OF *(2,3,4), of "[]"] *(1) obtain rest where
    "re_dmY s = (d, m, y, []) # rest" by auto
  with *(5-8) show "strptime_dmY s = Inr dt"
    by (simp add: strptime_dmY_def bind_def)
qed

lemma strptime_dmY_error: "strptime_dmY s = Inl e \<Longrightarrow> \<exists>m. e = ValueError m"
  by (auto simp: strptime_dmY_def bind_def py_int_def datetime_new_def Let_def
           split: list.splits if_splits sum.splits)

lemma Birthday_init_Inr_iff:
  "Birthday_init s = Inr b \<longleftrightarrow> strptime_dmY s = Inr (field_value b)"
  by (cases b) (auto simp: Birthday_init_def split: sum.splits error.splits)

lemma Birthday_init_error:
  "Birthday_init s = Inl e \<Longrightarrow> e = ValueError ''Invalid date format. Use DD.MM.YYYY''"
  using strptime_dmY_error [of s]
  by (auto simp: Birthday_init_def split: sum.splits error.splits)

lemma digits_of_append:
  "r < 10 \<Longrightarrow> digits_of (10 * q + r) = (if q = 0 then [r] else digits_of q @ [r])"
  by (subst digits_of.simps) simp

lemma digits_of_lt10: "n < 10 \<Longrightarrow> digits_of n = [n]"
  by (subst digits_of.simps) simp

lemma digits_of_2: "a < 10 \<Longrightarrow> b < 10 \<Longrightarrow> digits_of (10 * a + b) = (if a = 0 then [b] else [a, b])"
  by (simp add: digits_of_append digits_of_lt10)

lemma digits_of_3:
  assumes "a < 10" "b < 10" "c < 10"
  shows "digits_of (10 * (10 * a + b) + c) =
     (if a = 0 then (if b = 0 then [c] else [b, c]) else [a, b, c])"
proof -
  have "digits_of (10 * (10 * a + b) + c) =
          (if 10 * a + b = 0 then [c] else digits_of (10 * a + b) @ [c])"
    using assms(3) by (rule digits_of_append)
  also have "\<dots> = (if a = 0 then (if b = 0 then [c] else [b, c]) else [a, b, c])"
    using assms by (simp add: digits_of_2 digits_of_lt10)
  finally show ?thesis .
qed

lemma digits_of_4:
  assumes "a < 10" "b < 10" "c < 10" "e < 10"
  shows "digits_of (10 * (10 * (10 * a + b) + c) + e) =
     (if a = 0 then (if b = 0 then (if c = 0 then [e] else [c, e]) else [b, c, e])
      else [a, b, c, e])"
proof -
  have "digits_of (10 * (10 * (10 * a + b) + c) + e) =
          (if 10 * (10 * a + b) + c = 0 then [e]
           else digits_of (10 * (10 * a + b) + c) @ [e])"
    using assms(4) by (rule digits_of_append)
  also have "\<dots> = (if a = 0 then (if b = 0 then (if c = 0 then [e] else [c, e]) else [b, c, e])
      else [a, b, c, e])"
    unfolding digits_of_3 [OF assms(1,2,3)] by simp
  finally show ?thesis .
qed

lemma zfill2_digits:
  assumes "a < 10" "b < 10"
  shows "zfill 2 (show_nat (10 * a + b)) = [0x30 + a, 0x30 + b]"
  unfolding zfill_def show_nat_def digits_of_2 [OF assms] by simp

lemma zfill4_digits:
  assumes "a < 10" "b < 10" "c < 10" "e < 10"
  shows "zfill 4 (show_nat (10 * (10 * (10 * a + b) + c) + e))
           = [0x30 + a, 0x30 + b, 0x30 + c, 0x30 + e]"
  unfolding zfill_def show_nat_def digits_of_4 [OF assms] by (simp add: numeral_eq_Suc)

lemma show_nat_digits4:
  assumes "a < 10" "b < 10" "c < 10" "e < 10"
  shows "show_nat (10 * (10 * (10 * a + b) + c) + e) =
     (if a = 0 then (if b = 0 then (if c = 0 then [0x30 + e] else [0x30 + c, 0x30 + e])
                     else [0x30 + b, 0x30 + c, 0x30 + e])
      else [0x30 + a, 0x30 + b, 0x30 + c, 0x30 + e])"
  unfolding show_nat_def digits_of_4 [OF assms] by simp

lemma decompose2: "(n::nat) < 100 \<Longrightarrow> \<exists>a b. a < 10 \<and> b < 10 \<and> n = 10 * a + b"
  by (rule exI [of _ "n div 10"], rule exI [of _ "n mod 10"]) auto

lemma decompose4:
  assumes "(n::nat) < 10000"
  shows "\<exists>a b c e. a < 10 \<and> b < 10 \<and> c < 10 \<and> e < 10 \<and>
      n = 10 * (10 * (10 * a + b) + c) + e"
proof -
  let ?q1 = "n div 10" let ?q2 = "n div 10 div 10" let ?q3 = "n div 10 div 10 div 10"
  have 1: "n = 10 * ?q1 + n mod 10" by simp
  have 2: "?q1 = 10 * ?q2 + ?q1 mod 10" by simp
  have 3: "?q2 = 10 * ?q3 + ?q2 mod 10" by simp
  have "n = 10 * (10 * (10 * ?q3 + ?q2 mod 10) + ?q1 mod 10) + n mod 10"
    using 1 2 3 by simp
  moreover have "?q3 < 10" using assms by simp
  moreover have "?q2 mod 10 < 10" "?q1 mod 10 < 10" "n mod 10 < 10" by simp_all
  ultimately show ?thesis by blast
qed

lemma ascii_digit_iff: "ascii_digit c \<longleftrightarrow> (\<exists>a<10. c = 0x30 + a)"
  unfolding ascii_digit_def by (auto intro: exI [of _ "c - 48"])

lemma decimal_ascii_offset: "a < 10 \<Longrightarrow> decimal (0x30 + a) = Some a"
  using decimal_ascii [of "0x30 + a"] by (simp add: ascii_digit_def)

lemma is_decimal_ascii_offset: "a < 10 \<Longrightarrow> is_decimal (0x30 + a)"
  by (simp add: is_decimal_def decimal_ascii_offset)

lemma py_int_2:
  "a < 10 \<Longrightarrow> b < 10 \<Longrightarrow> py_int [0x30 + a, 0x30 + b] = Inr (int (10 * a + b))"
  by (simp add: py_int_def is_decimal_ascii_offset decimal_ascii_offset)

lemma py_int_4:
  "a < 10 \<Longrightarrow> b < 10 \<Longrightarrow> c < 10 \<Longrightarrow> e < 10 \<Longrightarrow>
   py_int [0x30 + a, 0x30 + b, 0x30 + c, 0x30 + e]
     = Inr (int (10 * (10 * (10 * a + b) + c) + e))"
  by (simp add: py_int_def is_decimal_ascii_offset decimal_ascii_offset)

lemma days_in_month_le: "1 \<le> M \<Longrightarrow> M \<le> 12 \<Longrightarrow> days_in_month Y M \<le> 31"
proof -
  assume "1 \<le> M" "M \<le> 12"
  then have "M = 1 \<or> M = 2 \<or> M = 3 \<or> M = 4 \<or> M = 5 \<or> M = 6 \<or> M = 7 \<or> M = 8 \<or> M = 9
      \<or> M = 10 \<or> M = 11 \<or> M = 12" by arith
  then show ?thesis by (auto simp: days_in_month_def DAYS_IN_MONTH_def)
qed

lemma datetime_new_Inr:
  assumes "datetime_new Y M D 0 0 0 0 = Inr dt"
  shows "year dt = Y \<and> month dt = M \<and> day dt = D \<and> 1 \<le> Y \<and> Y \<le> 9999 \<and>
         1 \<le> M \<and> M \<le> 12 \<and> 1 \<le> D \<and> D \<le> 31"
proof -
  from assms have *: "1 \<le> Y" "Y \<le> 9999" "1 \<le> M" "M \<le> 12" "1 \<le> D" "D \<le> days_in_month Y M"
    and dt: "dt = \<lparr>year = Y, month = M, day = D, hour = 0, minute = 0, second = 0,
                    microsecond = 0\<rparr>"
    by (auto simp: datetime_new_def MINYEAR_def MAXYEAR_def split: if_splits)
  from days_in_month_le [OF *(3,4), of Y] *(6) have "D \<le> 31" by simp
  with * dt show ?thesis by simp
qed

text \<open>A birthday built by \<open>Birthday\<close> is a valid date at 00:00.\<close>

lemma Birthday_init_midnight:
  assumes "Birthday_init s = Inr b"
  shows "valid_datetime (field_value b) \<and> time_of (field_value b) = (0, 0, 0, 0)"
proof -
  from assms have "strptime_dmY s = Inr (field_value b)" by (simp add: Birthday_init_Inr_iff)
  then obtain D M Y where new: "datetime_new Y M D 0 0 0 0 = Inr (field_value b)"
    unfolding strptime_dmY_Inr_iff by blast
  then have "field_value b = \<lparr>year = Y, month = M, day = D, hour = 0, minute = 0, second = 0,
                    microsecond = 0\<rparr>"
    by (auto simp: datetime_new_def split: if_splits)
  with new show ?thesis by (simp add: valid_datetime_def time_of_def)
qed

text \<open>What \<open>strftime\<close> writes for a date of the calendar.\<close>

lemma strftime_dmY_digits:
  assumes "1 \<le> day dt" "day dt \<le> 31" "1 \<le> month dt" "month dt \<le> 12"
    "1 \<le> year dt" "year dt \<le> 9999"
  obtains a b c e f g h i where "a < 10" "b < 10" "c < 10" "e < 10"
    "f < 10" "g < 10" "h < 10" "i < 10"
    "nat (year dt) = 10 * (10 * (10 * f + g) + h) + i"
    "strftime_dmY pad dt =
       [0x30 + a, 0x30 + b] @ 0x2E # [0x30 + c, 0x30 + e] @ 0x2E #
       (if pad \<or> f \<noteq> 0 then [0x30 + f, 0x30 + g, 0x30 + h, 0x30 + i]
        else show_nat (nat (year dt)))"
    "\<not> pad \<and> f = 0 \<longrightarrow> length (show_nat (nat (year dt))) < 4"
proof -
  from assms(1,2) have "nat (day dt) < 100" by simp
  from decompose2 [OF this] obtain a b where ab: "a < 10" "b < 10" "nat (day dt) = 10 * a + b"
    by blast
  from assms(3,4) have "nat (month dt) < 100" by simp
  from decompose2 [OF this] obtain c e where ce: "c < 10" "e < 10" "nat (month dt) = 10 * c + e"
    by blast
  from assms(5,6) have "nat (year dt) < 10000" by simp
  from decompose4 [OF this] obtain f g h i where
    y: "f < 10" "g < 10" "h < 10" "i < 10" "nat (year dt) = 10 * (10 * (10 * f + g) + h) + i"
    by blast
  have d2: "zfill 2 (show_nat (nat (day dt))) = [0x30 + a, 0x30 + b]"
    unfolding ab(3) using ab(1,2) by (rule zfill2_digits)
  have m2: "zfill 2 (show_nat (nat (month dt))) = [0x30 + c, 0x30 + e]"
    unfolding ce(3) using ce(1,2) by (rule zfill2_digits)
  have y4: "zfill 4 (show_nat (nat (year dt))) = [0x30 + f, 0x30 + g, 0x30 + h, 0x30 + i]"
    unfolding y(5) using y(1-4) by (rule zfill4_digits)
  have ys: "show_nat (nat (year dt)) =
     (if f = 0 then (if g = 0 then (if h = 0 then [0x30 + i] else [0x30 + h, 0x30 + i])
                     else [0x30 + g, 0x30 + h, 0x30 + i])
      else [0x30 + f, 0x30 + g, 0x30 + h, 0x30 + i])"
    unfolding y(5) using y(1-4) by (rule show_nat_digits4)
  have out: "strftime_dmY pad dt =
             [0x30 + a, 0x30 + b] @ 0x2E # [0x30 + c, 0x30 + e] @ 0x2E #
             (if pad \<or> f \<noteq> 0 then [0x30 + f, 0x30 + g, 0x30 + h, 0x30 + i]
              else show_nat (nat (year dt)))"
    unfolding strftime_dmY_def d2 m2 y4 using ys by simp
  have short: "\<not> pad \<and> f = 0 \<longrightarrow> length (show_nat (nat (year dt))) < 4"
    unfolding ys by simp
  from ab(1,2) ce(1,2) y out short show ?thesis by (rule that)
qed

lemma spec_date_patternE:
  assumes "spec_date_pattern s"
  obtains d1 d2 m1 m2 y1 y2 y3 y4 where
    "s = [d1, d2, 0x2E, m1, m2, 0x2E, y1, y2, y3, y4]"
    "ascii_digit d1" "ascii_digit d2" "ascii_digit m1" "ascii_digit m2"
    "ascii_digit y1" "ascii_digit y2" "ascii_digit y3" "ascii_digit y4"
proof (cases s rule: spec_date_pattern.cases)
  case (1 d1 d2 p1 m1 m2 p2 y1 y2 y3 y4)
  with assms have "s = [d1, d2, 0x2E, m1, m2, 0x2E, y1, y2, y3, y4]"
    "ascii_digit d1" "ascii_digit d2" "ascii_digit m1" "ascii_digit m2"
    "ascii_digit y1" "ascii_digit y2" "ascii_digit y3" "ascii_digit y4"
    by simp_all
  then show ?thesis by (rule that)
qed (use assms in simp_all)

lemma strptime_dmY_InrD:
  assumes "strptime_dmY s = Inr dt"
  obtains d m y D M Y where "s = d @ 0x2E # m @ 0x2E # y"
    "day_text d" "month_text m" "year_text y"
    "py_int d = Inr D" "py_int m = Inr M" "py_int y = Inr Y"
    "datetime_new Y M D 0 0 0 0 = Inr dt"
  using assms unfolding strptime_dmY_Inr_iff by (elim exE conjE) (rule that)

lemma ascii_digit_not_dot: "ascii_digit c \<Longrightarrow> c \<noteq> 0x2E"
  by (auto simp: ascii_digit_def)

lemma roundtrip_forward:
  assumes ok: "strptime_dmY s = Inr dt" and rt: "strftime_dmY pad dt = s"
  shows "spec_date_pattern s \<and> (pad \<or> 1000 \<le> year dt)"
proof -
  from ok obtain d m y D M Y where s: "s = d @ 0x2E # m @ 0x2E # y"
    and sh: "day_text d" "month_text m" "year_text y"
    and new: "datetime_new Y M D 0 0 0 0 = Inr dt"
    by (rule strptime_dmY_InrD)
  from datetime_new_Inr [OF new]
  have rg: "1 \<le> day dt" "day dt \<le> 31" "1 \<le> month dt" "month dt \<le> 12"
    "1 \<le> year dt" "year dt \<le> 9999" by simp_all
  from rg obtain a b c e f g h i where dg: "a < 10" "b < 10" "c < 10" "e < 10"
    "f < 10" "g < 10" "h < 10" "i < 10"
    and yr: "nat (year dt) = 10 * (10 * (10 * f + g) + h) + i"
    and out: "strftime_dmY pad dt =
       [0x30 + a, 0x30 + b] @ 0x2E # [0x30 + c, 0x30 + e] @ 0x2E #
       (if pad \<or> f \<noteq> 0 then [0x30 + f, 0x30 + g, 0x30 + h, 0x30 + i]
        else show_nat (nat (year dt)))"
    and short: "\<not> pad \<and> f = 0 \<longrightarrow> length (show_nat (nat (year dt))) < 4"
    by (rule strftime_dmY_digits [of dt pad])
  let ?yp = "if pad \<or> f \<noteq> 0 then [0x30 + f, 0x30 + g, 0x30 + h, 0x30 + i]
        else show_nat (nat (year dt))"
  from rt s out
  have eq: "d @ 0x2E # m @ 0x2E # y = [0x30 + a, 0x30 + b] @ 0x2E # [0x30 + c, 0x30 + e] @ 0x2E # ?yp"
    by simp
  have nd1: "0x2E \<notin> set [0x30 + a, 0x30 + b]" and nd2: "0x2E \<notin> set [0x30 + c, 0x30 + e]"
    by simp_all
  from split_at_first [OF day_text_no_dot [OF sh(1)] nd1 eq]
  have d: "d = [0x30 + a, 0x30 + b]"
    and eq2: "m @ 0x2E # y = [0x30 + c, 0x30 + e] @ 0x2E # ?yp" by simp_all
  from split_at_first [OF month_text_no_dot [OF sh(2)] nd2 eq2]
  have m: "m = [0x30 + c, 0x30 + e]" and y: "y = ?yp" by simp_all
  from sh(3) y have len: "length ?yp = 4" by (simp add: year_text_def)
  have pf: "pad \<or> f \<noteq> 0"
  proof (rule ccontr)
    assume "\<not> (pad \<or> f \<noteq> 0)"
    with short len show False by simp
  qed
  with s d m y
  have "s = [0x30 + a, 0x30 + b, 0x2E, 0x30 + c, 0x30 + e, 0x2E,
             0x30 + f, 0x30 + g, 0x30 + h, 0x30 + i]"
    by simp
  with dg have "spec_date_pattern s" by (simp add: ascii_digit_def)
  moreover have "pad \<or> 1000 \<le> year dt"
  proof (cases pad)
    case True
    then show ?thesis by simp
  next
    case False
    with pf have "f \<noteq> 0" by simp
    with yr have "1000 \<le> nat (year dt)" by simp
    then show ?thesis by arith
  qed
  ultimately show ?thesis by simp
qed

lemma roundtrip_backward:
  assumes ok: "strptime_dmY s = Inr dt" and pat: "spec_date_pattern s"
    and py: "pad \<or> 1000 \<le> year dt"
  shows "strftime_dmY pad dt = s"
proof -
  from ok obtain d m y D M Y where s: "s = d @ 0x2E # m @ 0x2E # y"
    and sh: "day_text d" "month_text m" "year_text y"
    and val: "py_int d = Inr D" "py_int m = Inr M" "py_int y = Inr Y"
    and new: "datetime_new Y M D 0 0 0 0 = Inr dt"
    by (rule strptime_dmY_InrD)
  from pat show ?thesis
  proof (rule spec_date_patternE)
  fix d1 d2 m1 m2 y1 y2 y3 y4
  assume s': "s = [d1, d2, 0x2E, m1, m2, 0x2E, y1, y2, y3, y4]"
    and as: "ascii_digit d1" "ascii_digit d2" "ascii_digit m1" "ascii_digit m2"
      "ascii_digit y1" "ascii_digit y2" "ascii_digit y3" "ascii_digit y4"
  from as(1,2) obtain a b where ab: "a < 10" "b < 10" "d1 = 0x30 + a" "d2 = 0x30 + b"
    unfolding ascii_digit_iff by (elim exE conjE)
  from as(3,4) obtain c e where ce: "c < 10" "e < 10" "m1 = 0x30 + c" "m2 = 0x30 + e"
    unfolding ascii_digit_iff by (elim exE conjE)
  from as(5,6) obtain f g where fg: "f < 10" "g < 10" "y1 = 0x30 + f" "y2 = 0x30 + g"
    unfolding ascii_digit_iff by (elim exE conjE)
  from as(7,8) obtain h i where hi: "h < 10" "i < 10" "y3 = 0x30 + h" "y4 = 0x30 + i"
    unfolding ascii_digit_iff by (elim exE conjE)
  from s s' have eq: "d @ 0x2E # m @ 0x2E # y = [d1, d2] @ 0x2E # [m1, m2] @ 0x2E # [y1, y2, y3, y4]"
    by simp
  from as(1,2) have nd1: "0x2E \<notin> set [d1, d2]" by (auto dest: ascii_digit_not_dot)
  from as(3,4) have nd2: "0x2E \<notin> set [m1, m2]" by (auto dest: ascii_digit_not_dot)
  from split_at_first [OF day_text_no_dot [OF sh(1)] nd1 eq]
  have d: "d = [d1, d2]" and eq2: "m @ 0x2E # y = [m1, m2] @ 0x2E # [y1, y2, y3, y4]"
    by simp_all
  from split_at_first [OF month_text_no_dot [OF sh(2)] nd2 eq2]
  have m: "m = [m1, m2]" and y: "y = [y1, y2, y3, y4]" by simp_all
  from val(1) d ab py_int_2 [OF ab(1,2)] have D: "D = int (10 * a + b)" by simp
  from val(2) m ce py_int_2 [OF ce(1,2)] have M: "M = int (10 * c + e)" by simp
  from val(3) y fg hi py_int_4 [OF fg(1,2) hi(1,2)]
  have Y: "Y = int (10 * (10 * (10 * f + g) + h) + i)" by simp
  from datetime_new_Inr [OF new] have fld: "year dt = Y" "month dt = M" "day dt = D" by simp_all
  have nD: "nat (day dt) = 10 * a + b" unfolding fld D by (rule nat_int)
  have nM: "nat (month dt) = 10 * c + e" unfolding fld M by (rule nat_int)
  have nY: "nat (year dt) = 10 * (10 * (10 * f + g) + h) + i" unfolding fld Y by (rule nat_int)
  have d2: "zfill 2 (show_nat (nat (day dt))) = [d1, d2]"
    unfolding nD ab(3,4) using ab(1,2) by (rule zfill2_digits)
  have m2: "zfill 2 (show_nat (nat (month dt))) = [m1, m2]"
    unfolding nM ce(3,4) using ce(1,2) by (rule zfill2_digits)
  have y4: "zfill 4 (show_nat (nat (year dt))) = [y1, y2, y3, y4]"
    unfolding nY fg(3,4) hi(3,4) using fg(1,2) hi(1,2) by (rule zfill4_digits)
  have ys: "\<not> pad \<Longrightarrow> show_nat (nat (year dt)) = [y1, y2, y3, y4]"
  proof -
    assume "\<not> pad"
    with py have "1000 \<le> year dt" by simp
    then have "1000 \<le> nat (year dt)" by simp
    with nY fg(1,2) hi(1,2) have "f \<noteq> 0" by (cases "f = 0") simp_all
    with show_nat_digits4 [OF fg(1,2) hi(1,2)] nY fg(3,4) hi(3,4) show ?thesis by simp
  qed
  show ?thesis
    unfolding strftime_dmY_def d2 m2 y4 s' using ys by (cases pad) simp_all
  qed
qed

text \<open>
  Claim C5, as the code has it. When \<open>Birthday\<close> accepts a text, rendering the stored
  date with \<open>strftime("%d.%m.%Y")\<close> gives the text back exactly when the text is written
  as two ASCII digits, a dot, two ASCII digits, a dot and four ASCII digits (and, on a
  platform whose \<open>strftime\<close> does not pad the year, the year is at least 1000). The
  accepted texts are those made of a day, a dot, a month, a dot and a year in the forms
  the parser's pattern allows (which include a one-digit day or month, a day written
  with a leading blank, and decimal digits outside ASCII) that denote a date of the
  calendar. Every other text is refused with the message
  "Invalid date format. Use DD.MM.YYYY".
\<close>

theorem Birthday_init_round_trip:
  "(\<forall>b. Birthday_init s = Inr b \<longrightarrow>
      (strftime_dmY pad (field_value b) = s \<longleftrightarrow>
         spec_date_pattern s \<and> (pad \<or> 1000 \<le> year (field_value b)))) \<and>
   ((\<exists>b. Birthday_init s = Inr b) \<longleftrightarrow>
      (\<exists>d m y D M Y dt. s = d @ 0x2E # m @ 0x2E # y \<and>
         day_text d \<and> month_text m \<and> year_text y \<and>
         py_int d = Inr D \<and> py_int m = Inr M \<and> py_int y = Inr Y \<and>
         datetime_new Y M D 0 0 0 0 = Inr dt)) \<and>
   (\<forall>e. Birthday_init s = Inl e \<longrightarrow>
      e = ValueError ''Invalid date format. Use DD.MM.YYYY'')"
proof (intro conjI allI impI)
  fix b
  assume "Birthday_init s = Inr b"
  then have ok: "strptime_dmY s = Inr (field_value b)" by (simp add: Birthday_init_Inr_iff)
  show "strftime_dmY pad (field_value b) = s \<longleftrightarrow>
         spec_date_pattern s \<and> (pad \<or> 1000 \<le> year (field_value b))"
  proof
    assume "strftime_dmY pad (field_value b) = s"
    with ok show "spec_date_pattern s \<and> (pad \<or> 1000 \<le> year (field_value b))"
      by (rule roundtrip_forward)
  next
    assume "spec_date_pattern s \<and> (pad \<or> 1000 \<le> year (field_value b))"
    then have "spec_date_pattern s" "pad \<or> 1000 \<le> year (field_value b)" by simp_all
    with ok show "strftime_dmY pad (field_value b) = s" by (rule roundtrip_backward)
  qed
next
  have "(\<exists>b. Birthday_init s = Inr b) \<longleftrightarrow> (\<exists>dt. strptime_dmY s = Inr dt)"
    unfolding Birthday_init_Inr_iff by (metis Field.sel)
  then show "(\<exists>b. Birthday_init s = Inr b) \<longleftrightarrow>
      (\<exists>d m y D M Y dt. s = d @ 0x2E # m @ 0x2E # y \<and>
         day_text d \<and> month_text m \<and> year_text y \<and>
         py_int d = Inr D \<and> py_int m = Inr M \<and> py_int y = Inr Y \<and>
         datetime_new Y M D 0 0 0 0 = Inr dt)"
    unfolding strptime_dmY_Inr_iff by blast
next
  fix e
  assume "Birthday_init s = Inl e"
  then show "e = ValueError ''Invalid date format. Use DD.MM.YYYY''"
    by (rule Birthday_init_error)
qed

lemmas parser_eval =
  Birthday_init_def strptime_dmY_def re_dmY_def group_d_def group_m_def group_Y_def alt_def
  seq_def chr_lit_def chr_range_def chr_in_simps rep_chr_in is_decimal_def decimal_def
  decimal_zeros_def bind_def py_int_def calendar_eval

theorem Birthday_init_round_trip_witness:
  "Birthday_init [0x30, 0x35, 0x2E, 0x30, 0x36, 0x2E, 0x31, 0x39, 0x39, 0x30]
     = Inr (Field (midnight 1990 6 5)) \<and>
   spec_date_pattern [0x30, 0x35, 0x2E, 0x30, 0x36, 0x2E, 0x31, 0x39, 0x39, 0x30] \<and>
   strftime_dmY False (midnight 1990 6 5)
     = [0x30, 0x35, 0x2E, 0x30, 0x36, 0x2E, 0x31, 0x39, 0x39, 0x30] \<and>
   Birthday_init [0x33, 0x31, 0x2E, 0x30, 0x32, 0x2E, 0x32, 0x30, 0x32, 0x34]
     = Inl (ValueError ''Invalid date format. Use DD.MM.YYYY'')"
proof -
  let ?s = "[0x30, 0x35, 0x2E, 0x30, 0x36, 0x2E, 0x31, 0x39, 0x39, 0x30] :: str"
  let ?t = "[0x33, 0x31, 0x2E, 0x30, 0x32, 0x2E, 0x32, 0x30, 0x32, 0x34] :: str"
  have ok: "Birthday_init ?s = Inr (Field (midnight 1990 6 5))"
    by (simp add: parser_eval)
  have pat: "spec_date_pattern ?s" by (simp add: ascii_digit_def)
  have yr: "1000 \<le> year (field_value (Field (midnight 1990 6 5)))"
    by (simp add: midnight_def)
  from Birthday_init_round_trip [of ?s False, THEN conjunct1, THEN spec, THEN mp, OF ok]
    pat yr
  have same: "strftime_dmY False (midnight 1990 6 5) = ?s" by simp
  have "\<exists>e. Birthday_init ?t = Inl e" by (simp add: parser_eval)
  then obtain e where e: "Birthday_init ?t = Inl e" ..
  from Birthday_init_round_trip [of ?t False, THEN conjunct2, THEN conjunct2, THEN spec,
         THEN mp, OF e] e
  have bad: "Birthday_init ?t = Inl (ValueError ''Invalid date format. Use DD.MM.YYYY'')"
    by simp
  from ok pat same bad show ?thesis by simp
qed

text \<open>
  The claim as the specification words it fails: the text \<open>5.6.1990\<close> has a one-digit day
  and month, it is accepted, and the stored date is rendered \<open>05.06.1990\<close>, which is not
  the text (with and without padding of the year).
\<close>

theorem Birthday_init_round_trip_counterexample:
  "Birthday_init [0x35, 0x2E, 0x36, 0x2E, 0x31, 0x39, 0x39, 0x30]
     = Inr (Field (midnight 1990 6 5)) \<and>
   \<not> spec_date_pattern [0x35, 0x2E, 0x36, 0x2E, 0x31, 0x39, 0x39, 0x30] \<and>
   strftime_dmY True (midnight 1990 6 5)
     = [0x30, 0x35, 0x2E, 0x30, 0x36, 0x2E, 0x31, 0x39, 0x39, 0x30] \<and>
   strftime_dmY False (midnight 1990 6 5)
     = [0x30, 0x35, 0x2E, 0x30, 0x36, 0x2E, 0x31, 0x39, 0x39, 0x30] \<and>
   strftime_dmY True (midnight 1990 6 5) \<noteq> [0x35, 0x2E, 0x36, 0x2E, 0x31, 0x39, 0x39, 0x30] \<and>
   strftime_dmY False (midnight 1990 6 5) \<noteq> [0x35, 0x2E, 0x36, 0x2E, 0x31, 0x39, 0x39, 0x30]"
proof -
  have r: "strftime_dmY p (midnight 1990 6 5)
             = [0x30, 0x35, 0x2E, 0x30, 0x36, 0x2E, 0x31, 0x39, 0x39, 0x30]" for p
    by (simp add: strftime_dmY_def zfill_def show_nat_def digits_of.simps midnight_def)
  have "Birthday_init [0x35, 0x2E, 0x36, 0x2E, 0x31, 0x39, 0x39, 0x30]
          = Inr (Field (midnight 1990 6 5))"
    by (simp add: parser_eval)
  then show ?thesis by (simp add: r)
qed

end
